theory Spec2Isabelle
  imports Complex_Main "HOL-Library.Log_Nat"
begin

text \<open>
  The delivery lifecycle engine of the Honey Badger backend: the status routes, the
  progress evaluators, the submission and fitness-sync routes, the scheduler sweeps and
  the chat read and analytics, as functions on the collection of deliveries, with the
  properties the specification states about them.
\<close>

section \<open>JavaScript values\<close>

text \<open>
  A JavaScript number is modelled as an exact rational, or one of the three special
  values of IEEE arithmetic. Rounding of doubles and the sign of zero are not modelled:
  a zero divisor is taken as \<open>+0\<close>. The operations below are the ones the evaluators
  use (\<open>/\<close>, \<open>*\<close>, \<open>+\<close>, \<open>>=\<close>, \<open>===\<close>, \<open>Math.min\<close>, \<open>Math.round\<close>).
  The routes and sweeps are given over these numbers, for the properties of statuses
  and flags. The doubles themselves, with rounding, signed zeros and overflow, follow
  in the section on binary64 arithmetic, for the results that depend on them: the
  percentage of the fitness evaluator and the bounds of the chat page.
\<close>

datatype jsnum = NaN | NegInf | Fin rat | PosInf

text \<open>A value of the untyped fields (\<open>target\<close>, \<open>content\<close>): a number or a string.\<close>

datatype jsval = VNum jsnum | VStr string

fun js_div :: "jsnum \<Rightarrow> jsnum \<Rightarrow> jsnum" where
  "js_div NaN _ = NaN"
| "js_div _ NaN = NaN"
| "js_div (Fin a) (Fin b) =
     (if b \<noteq> 0 then Fin (a / b)
      else if a = 0 then NaN
      else if 0 < a then PosInf else NegInf)"
| "js_div (Fin a) _ = Fin 0"
| "js_div PosInf (Fin b) = (if 0 \<le> b then PosInf else NegInf)"
| "js_div NegInf (Fin b) = (if 0 \<le> b then NegInf else PosInf)"
| "js_div _ _ = NaN"

fun js_mul :: "jsnum \<Rightarrow> jsnum \<Rightarrow> jsnum" where
  "js_mul NaN _ = NaN"
| "js_mul _ NaN = NaN"
| "js_mul (Fin a) (Fin b) = Fin (a * b)"
| "js_mul (Fin a) PosInf = (if a = 0 then NaN else if 0 < a then PosInf else NegInf)"
| "js_mul (Fin a) NegInf = (if a = 0 then NaN else if 0 < a then NegInf else PosInf)"
| "js_mul PosInf (Fin b) = (if b = 0 then NaN else if 0 < b then PosInf else NegInf)"
| "js_mul NegInf (Fin b) = (if b = 0 then NaN else if 0 < b then NegInf else PosInf)"
| "js_mul PosInf PosInf = PosInf"
| "js_mul NegInf NegInf = PosInf"
| "js_mul _ _ = NegInf"

fun js_add :: "jsnum \<Rightarrow> jsnum \<Rightarrow> jsnum" where
  "js_add NaN _ = NaN"
| "js_add _ NaN = NaN"
| "js_add (Fin a) (Fin b) = Fin (a + b)"
| "js_add (Fin a) y = y"
| "js_add x (Fin b) = x"
| "js_add PosInf PosInf = PosInf"
| "js_add NegInf NegInf = NegInf"
| "js_add _ _ = NaN"

text \<open>\<open>x >= y\<close> on numbers: false as soon as one side is \<open>NaN\<close>.\<close>

fun js_ge :: "jsnum \<Rightarrow> jsnum \<Rightarrow> bool" where
  "js_ge NaN _ = False"
| "js_ge _ NaN = False"
| "js_ge (Fin a) (Fin b) = (b \<le> a)"
| "js_ge PosInf _ = True"
| "js_ge _ NegInf = True"
| "js_ge _ _ = False"

text \<open>\<open>x === y\<close> on numbers: \<open>NaN\<close> equals nothing.\<close>

definition js_eq :: "jsnum \<Rightarrow> jsnum \<Rightarrow> bool" where
  "js_eq x y = (x \<noteq> NaN \<and> y \<noteq> NaN \<and> x = y)"

text \<open>\<open>Math.min(x, y)\<close>: \<open>NaN\<close> if one argument is, the lesser otherwise.\<close>

definition js_min :: "jsnum \<Rightarrow> jsnum \<Rightarrow> jsnum" where
  "js_min x y = (if x = NaN \<or> y = NaN then NaN else if js_ge x y then y else x)"

text \<open>\<open>Math.round(x)\<close>: the nearest integer, a half rounded up.\<close>

fun js_round :: "jsnum \<Rightarrow> jsnum" where
  "js_round (Fin a) = Fin (of_int \<lfloor>a + 1 / 2\<rfloor>)"
| "js_round x = x"

text \<open>\<open>typeof v === 'number'\<close> and the truthiness of a value.\<close>

fun is_number :: "jsval \<Rightarrow> bool" where
  "is_number (VNum _) = True"
| "is_number (VStr _) = False"

fun truthy :: "jsval \<Rightarrow> bool" where
  "truthy (VStr s) = (s \<noteq> [])"
| "truthy (VNum n) = (n \<noteq> NaN \<and> n \<noteq> Fin 0)"

text \<open>
  \<open>a >= b\<close> as the evaluator uses it, behind its guard that both sides are numbers;
  on any other pair the comparison is never reached and the model answers \<open>False\<close>.
\<close>

fun val_ge :: "jsval \<Rightarrow> jsval \<Rightarrow> bool" where
  "val_ge (VNum a) (VNum b) = js_ge a b"
| "val_ge _ _ = False"

section \<open>Data model\<close>

text \<open>
  A \<open>Date\<close> is its number of milliseconds since the epoch. Enumerated strings (statuses,
  requirement and submission types, verification methods) stay strings, compared as the
  source compares them. Records carry the fields the lifecycle engine reads or writes;
  titles, descriptions, units, rewards, personality and message metadata are left out.
\<close>

type_synonym time = int

record requirement =
  req_type :: string
  target :: jsval

record submission =
  sub_type :: string
  content :: jsval
  sub_timestamp :: time

text \<open>
  The object \<open>calculateFitnessProgress\<close> returns, extended by \<open>calculateTaskProgress\<close>
  with a verification status, and by the stored \<open>task.progress\<close> with the rest.
\<close>

record progress_result =
  percentage :: jsnum
  completed :: bool

record task_progress_result = progress_result +
  verificationStatus :: string

record progress = task_progress_result +
  submissions :: "submission list"
  lastUpdated :: time

record task =
  task_type :: string
  requirements :: "requirement list"
  verificationMethod :: string
  deadline :: "time option"
  progress :: progress

record message =
  msg_senderId :: string
  msg_content :: string
  msg_type :: string
  msg_timestamp :: time

record badger =
  senderId :: string
  recipientId :: string
  status :: string
  task :: task
  chat :: "message list"
  expiresAt :: "time option"
  completedAt :: "time option"

text \<open>The collection of deliveries, by \<open>_id\<close>.\<close>

type_synonym db = "string \<rightharpoonup> badger"

text \<open>The responses of the routes other than success.\<close>

datatype error =
    NotFound \<comment> \<open>404: Badger not found (or not authorized)\<close>
  | InvalidTransition string string \<comment> \<open>400: Invalid status transition from .. to ..\<close>
  | CannotCancelCompleted \<comment> \<open>400: Cannot cancel completed badger\<close>
  | CannotSubmit \<comment> \<open>400: Cannot submit to badger in current status\<close>
  | NotFitness \<comment> \<open>400: Task is not fitness-related\<close>
  | ValidationFailed \<comment> \<open>400: Validation failed (the request schema)\<close>
  | Failed \<comment> \<open>500: Failed to process task submission (.. sync fitness data)\<close>

section \<open>Lifecycle routes\<close>

text \<open>\<open>HoneyBadger.findOne({_id, $or: [{senderId}, {recipientId}]})\<close>.\<close>

definition findOne_party :: "db \<Rightarrow> string \<Rightarrow> string \<Rightarrow> badger option" where
  "findOne_party d i user =
     (case d i of
        None \<Rightarrow> None
      | Some b \<Rightarrow> if senderId b = user \<or> recipientId b = user then Some b else None)"

text \<open>The table of \<open>router.patch('/:id/status')\<close>.\<close>

definition allowedTransitions :: "string \<rightharpoonup> string list" where
  "allowedTransitions =
     [''sent'' \<mapsto> [''received'', ''cancelled''],
      ''received'' \<mapsto> [''in-progress'', ''cancelled''],
      ''in-progress'' \<mapsto> [''awaiting-verification'', ''cancelled''],
      ''awaiting-verification'' \<mapsto> [''completed'', ''in-progress'']]"

text \<open>\<open>allowedTransitions[cur]?.includes(s)\<close>.\<close>

definition transition_allowed :: "string \<Rightarrow> string \<Rightarrow> bool" where
  "transition_allowed cur s =
     (case allowedTransitions cur of None \<Rightarrow> False | Some l \<Rightarrow> s \<in> set l)"

text \<open>The assignments of the route to the loaded document, before \<open>save\<close>.\<close>

definition patch_status_changes :: "string \<Rightarrow> time \<Rightarrow> badger \<Rightarrow> badger" where
  "patch_status_changes s now b =
     (let b1 = b\<lparr>status := s\<rparr>
      in if s = ''completed''
         then b1\<lparr>completedAt := Some now,
                 task := (task b1)\<lparr>progress :=
                   (progress (task b1))\<lparr>completed := True, percentage := Fin 100\<rparr>\<rparr>\<rparr>
         else b1)"

text \<open>
  \<open>router.patch('/:id/status')\<close>: the response and the collection afterwards.
\<close>

definition patch_status ::
  "db \<Rightarrow> string \<Rightarrow> string \<Rightarrow> string \<Rightarrow> time \<Rightarrow> (error + badger) \<times> db" where
  "patch_status d user i s now =
     (case findOne_party d i user of
        None \<Rightarrow> (Inl NotFound, d)
      | Some b \<Rightarrow>
          if \<not> transition_allowed (status b) s
          then (Inl (InvalidTransition (status b) s), d)
          else let b' = patch_status_changes s now b in (Inr b', d(i \<mapsto> b')))"

text \<open>
  \<open>router.get('/:id')\<close>: the first view by the recipient marks a sent delivery received.
\<close>

definition get_badger :: "db \<Rightarrow> string \<Rightarrow> string \<Rightarrow> (error + badger) \<times> db" where
  "get_badger d user i =
     (case findOne_party d i user of
        None \<Rightarrow> (Inl NotFound, d)
      | Some b \<Rightarrow>
          if recipientId b = user \<and> status b = ''sent''
          then let b' = b\<lparr>status := ''received''\<rparr> in (Inr b', d(i \<mapsto> b'))
          else (Inr b, d))"

text \<open>\<open>HoneyBadger.findOne({_id, senderId})\<close> and \<open>HoneyBadger.findOne({_id, recipientId})\<close>.\<close>

definition findOne_sender :: "db \<Rightarrow> string \<Rightarrow> string \<Rightarrow> badger option" where
  "findOne_sender d i user =
     (case d i of None \<Rightarrow> None | Some b \<Rightarrow> if senderId b = user then Some b else None)"

definition findOne_recipient :: "db \<Rightarrow> string \<Rightarrow> string \<Rightarrow> badger option" where
  "findOne_recipient d i user =
     (case d i of None \<Rightarrow> None | Some b \<Rightarrow> if recipientId b = user then Some b else None)"

text \<open>\<open>router.delete('/:id')\<close>: cancel, for the sender only, unless completed.\<close>

definition cancel_badger :: "db \<Rightarrow> string \<Rightarrow> string \<Rightarrow> (error + unit) \<times> db" where
  "cancel_badger d user i =
     (case findOne_sender d i user of
        None \<Rightarrow> (Inl NotFound, d)
      | Some b \<Rightarrow>
          if status b = ''completed'' then (Inl CannotCancelCompleted, d)
          else (Inr (), d(i \<mapsto> b\<lparr>status := ''cancelled''\<rparr>)))"

section \<open>Progress evaluator\<close>

text \<open>
  The inner loop of \<open>calculateTaskProgress\<close> over the submissions, for one requirement:
  \<open>met\<close> is \<open>requirementMet\<close>, \<open>False\<close> at the start. Every matching submission runs the
  chain of tests again, so a later numeric comparison overwrites an earlier one.
\<close>

fun requirementMet :: "requirement \<Rightarrow> submission list \<Rightarrow> bool \<Rightarrow> bool" where
  "requirementMet r [] met = met"
| "requirementMet r (s # ss) met =
     requirementMet r ss
       (if req_type r = sub_type s then
          (if req_type r = ''photo'' \<or> req_type r = ''video'' then True
           else if is_number (target r) \<and> is_number (content s)
             then val_ge (content s) (target r)
           else if req_type r = ''text'' \<and> truthy (content s) then True
           else met)
        else met)"

text \<open>The outer loop: \<open>n\<close> is \<open>completedRequirements\<close>.\<close>

fun countRequirementsMet :: "requirement list \<Rightarrow> submission list \<Rightarrow> nat \<Rightarrow> nat" where
  "countRequirementsMet [] subs n = n"
| "countRequirementsMet (r # rs) subs n =
     countRequirementsMet rs subs (if requirementMet r subs False then n + 1 else n)"

definition calculateTaskProgress :: "badger \<Rightarrow> submission list \<Rightarrow> task_progress_result" where
  "calculateTaskProgress b subs =
     (let reqs = requirements (task b);
          completedRequirements = countRequirementsMet reqs subs 0;
          pct = js_round
                  (js_mul (js_div (Fin (of_nat completedRequirements))
                                  (Fin (of_nat (length reqs))))
                          (Fin 100))
      in \<lparr>percentage = pct,
          completed = js_eq pct (Fin 100),
          verificationStatus =
            (if verificationMethod (task b) = ''automatic'' then ''approved''
             else ''pending'')\<rparr>)"

text \<open>The snapshot \<open>fitnessService.syncUserData\<close> returns (\<open>FitnessData\<close>).\<close>

record fitnessData =
  steps :: jsnum
  exerciseMinutes :: jsnum
  distance :: jsnum
  calories :: jsnum

text \<open>
  The divisor \<open>requirement.target\<close> may be a string; the division then converts it with
  the language's \<open>ToNumber\<close>, which is a parameter \<open>tn\<close> of the model.
\<close>

fun to_number :: "(string \<Rightarrow> jsnum) \<Rightarrow> jsval \<Rightarrow> jsnum" where
  "to_number tn (VNum n) = n"
| "to_number tn (VStr s) = tn s"

text \<open>The \<open>switch\<close> of \<open>calculateFitnessProgress\<close>: \<open>progress\<close> of one requirement.\<close>

definition requirementProgress ::
  "(string \<Rightarrow> jsnum) \<Rightarrow> fitnessData \<Rightarrow> requirement \<Rightarrow> jsnum" where
  "requirementProgress tn fd r =
     (if req_type r = ''step-count''
        then js_min (js_div (steps fd) (to_number tn (target r))) (Fin 1)
      else if req_type r = ''exercise-minutes''
        then js_min (js_div (exerciseMinutes fd) (to_number tn (target r))) (Fin 1)
      else if req_type r = ''distance''
        then js_min (js_div (distance fd) (to_number tn (target r))) (Fin 1)
      else if req_type r = ''calories''
        then js_min (js_div (calories fd) (to_number tn (target r))) (Fin 1)
      else Fin 0)"

text \<open>The loop: the state is (\<open>totalProgress\<close>, \<open>completedRequirements\<close>).\<close>

fun fitnessLoop ::
  "(string \<Rightarrow> jsnum) \<Rightarrow> fitnessData \<Rightarrow> requirement list \<Rightarrow> jsnum \<times> nat \<Rightarrow> jsnum \<times> nat" where
  "fitnessLoop tn fd [] (totalProgress, n) = (totalProgress, n)"
| "fitnessLoop tn fd (r # rs) (totalProgress, n) =
     (let p = requirementProgress tn fd r
      in fitnessLoop tn fd rs
           (js_add totalProgress p, if js_ge p (Fin 1) then n + 1 else n))"

definition calculateFitnessProgress ::
  "(string \<Rightarrow> jsnum) \<Rightarrow> badger \<Rightarrow> fitnessData \<Rightarrow> progress_result" where
  "calculateFitnessProgress tn b fd =
     (let reqs = requirements (task b);
          (totalProgress, completedRequirements) = fitnessLoop tn fd reqs (Fin 0, 0)
      in \<lparr>percentage =
            js_round (js_mul (js_div totalProgress (Fin (of_nat (length reqs)))) (Fin 100)),
          completed = (completedRequirements = length reqs)\<rparr>)"

section \<open>Submission and fitness routes\<close>

text \<open>
  \<open>schemas.submitTask\<close>, checked by \<open>validate\<close> before the route runs: at least one
  submission, each of a known type with a non-empty string as content.
\<close>

definition schema_submitTask :: "submission list \<Rightarrow> bool" where
  "schema_submitTask subs =
     (subs \<noteq> [] \<and>
      list_all (\<lambda>s. sub_type s \<in> set [''photo'', ''video'', ''text'', ''data''] \<and>
                     (case content s of VStr c \<Rightarrow> c \<noteq> [] | VNum _ \<Rightarrow> False)) subs)"

text \<open>
  The \<open>map\<close> over the submitted entries: each gets the server's timestamp, and a photo
  or video takes the URL of the uploaded file of the same index, when there is one.
\<close>

definition processSubmission :: "time \<Rightarrow> string list \<Rightarrow> nat \<Rightarrow> submission \<Rightarrow> submission" where
  "processSubmission now uploadedFiles index s =
     (let processed = s\<lparr>sub_timestamp := now\<rparr>
      in if (sub_type s = ''photo'' \<or> sub_type s = ''video'') \<and>
            index < length uploadedFiles \<and> uploadedFiles ! index \<noteq> []
         then processed\<lparr>content := VStr (uploadedFiles ! index)\<rparr>
         else processed)"

definition processSubmissions :: "time \<Rightarrow> string list \<Rightarrow> submission list \<Rightarrow> submission list" where
  "processSubmissions now uploadedFiles subs =
     map (\<lambda>(index, s). processSubmission now uploadedFiles index s) (enumerate 0 subs)"

text \<open>
  What the schema of the model lets \<open>save\<close> store: a percentage is a number from 0 to
  100, the content of a chat message is present and at most 2000 characters long. The
  other paths the routes modify always hold values of their enumerations.
\<close>

fun percentage_valid :: "jsnum \<Rightarrow> bool" where
  "percentage_valid (Fin p) = (0 \<le> p \<and> p \<le> 100)"
| "percentage_valid _ = False"

definition chat_content_valid :: "string \<Rightarrow> bool" where
  "chat_content_valid c = (c \<noteq> [] \<and> length c \<le> 2000)"

text \<open>The method \<open>addChatMessage\<close> of the model, before its \<open>save\<close>.\<close>

definition addChatMessage :: "time \<Rightarrow> string \<Rightarrow> string \<Rightarrow> badger \<Rightarrow> badger" where
  "addChatMessage now sender text b =
     b\<lparr>chat := chat b @
        [\<lparr>msg_senderId = sender, msg_content = text, msg_type = ''text'',
          msg_timestamp = now\<rparr>]\<rparr>"

text \<open>The status update of the submission route (\<open>// Update badger status\<close>).\<close>

definition submit_status :: "time \<Rightarrow> bool \<Rightarrow> badger \<Rightarrow> badger" where
  "submit_status now progress_completed b =
     (if progress_completed then
        (let b1 = b\<lparr>status := (if verificationMethod (task b) = ''automatic''
                                then ''completed'' else ''awaiting-verification'')\<rparr>
         in if status b1 = ''completed'' then b1\<lparr>completedAt := Some now\<rparr> else b1)
      else if status b = ''received'' then b\<lparr>status := ''in-progress''\<rparr>
      else b)"

text \<open>
  \<open>router.post('/:badgerId/submit')\<close>. \<open>uploads\<close> is the list of URLs the storage
  service returned, \<open>None\<close> when an upload threw; \<open>aiResponse\<close> is the text the chat
  service generated (it and the notification service catch their own failures). A
  failure inside the \<open>try\<close> block answers 500; one after the first \<open>save\<close> leaves
  that write in the collection.
\<close>

definition submit_task ::
  "db \<Rightarrow> string \<Rightarrow> string \<Rightarrow> submission list \<Rightarrow> string list option \<Rightarrow> string \<Rightarrow> time
     \<Rightarrow> (error + badger) \<times> db" where
  "submit_task d user badgerId subs uploads aiResponse now =
     (if \<not> schema_submitTask subs then (Inl ValidationFailed, d)
      else case findOne_recipient d badgerId user of
        None \<Rightarrow> (Inl NotFound, d)
      | Some b \<Rightarrow>
          if status b \<notin> set [''received'', ''in-progress'', ''awaiting-verification'']
          then (Inl CannotSubmit, d)
          else case uploads of
            None \<Rightarrow> (Inl Failed, d)
          | Some uploadedFiles \<Rightarrow>
              let processedSubmissions = processSubmissions now uploadedFiles subs;
                  b1 = b\<lparr>task := (task b)\<lparr>progress := (progress (task b))
                         \<lparr>submissions :=
                            submissions (progress (task b)) @ processedSubmissions\<rparr>\<rparr>\<rparr>;
                  pr = calculateTaskProgress b1 processedSubmissions;
                  b2 = b1\<lparr>task := (task b1)\<lparr>progress := (progress (task b1))
                         \<lparr>percentage := percentage pr, completed := completed pr,
                          verificationStatus := verificationStatus pr,
                          lastUpdated := now\<rparr>\<rparr>\<rparr>;
                  b3 = submit_status now (completed pr) b2
              in if \<not> percentage_valid (percentage pr) then (Inl Failed, d)
                 else if \<not> chat_content_valid aiResponse
                   then (Inl Failed, d(badgerId \<mapsto> b3))
                 else let b4 = addChatMessage now ''badger'' aiResponse b3
                      in (Inr b4, d(badgerId \<mapsto> b4)))"

text \<open>
  \<open>router.post('/:badgerId/sync-fitness')\<close>. \<open>synced\<close> is the snapshot of the fitness
  service, \<open>None\<close> when the sync threw.
\<close>

definition sync_fitness ::
  "(string \<Rightarrow> jsnum) \<Rightarrow> db \<Rightarrow> string \<Rightarrow> string \<Rightarrow> fitnessData option \<Rightarrow> time
     \<Rightarrow> (error + progress) \<times> db" where
  "sync_fitness tn d user badgerId synced now =
     (case findOne_recipient d badgerId user of
        None \<Rightarrow> (Inl NotFound, d)
      | Some b \<Rightarrow>
          if task_type (task b) \<noteq> ''fitness'' then (Inl NotFitness, d)
          else case synced of
            None \<Rightarrow> (Inl Failed, d)
          | Some fitnessData \<Rightarrow>
              let pr = calculateFitnessProgress tn b fitnessData;
                  b1 = b\<lparr>task := (task b)\<lparr>progress := (progress (task b))
                         \<lparr>percentage := percentage pr, completed := completed pr,
                          lastUpdated := now\<rparr>\<rparr>\<rparr>;
                  b2 = (if completed pr \<and> status b1 \<noteq> ''completed''
                        then b1\<lparr>status := ''completed'', completedAt := Some now\<rparr>
                        else b1)
              in if \<not> percentage_valid (percentage pr) then (Inl Failed, d)
                 else (Inr (progress (task b2)), d(badgerId \<mapsto> b2)))"

section \<open>Scheduler sweeps\<close>

text \<open>
  \<open>HoneyBadger.updateMany(filter, update)\<close>: every document the filter matches is
  updated, each one atomically; the others stay as they are.
\<close>

definition updateMany :: "(badger \<Rightarrow> bool) \<Rightarrow> (badger \<Rightarrow> badger) \<Rightarrow> db \<Rightarrow> db" where
  "updateMany flt upd d =
     (\<lambda>i. case d i of None \<Rightarrow> None | Some b \<Rightarrow> Some (if flt b then upd b else b))"

text \<open>\<open>{field: {$lt: now}}\<close> on a date that may be \<open>null\<close>: \<open>null\<close> never matches.\<close>

fun date_lt :: "time option \<Rightarrow> time \<Rightarrow> bool" where
  "date_lt None now = False"
| "date_lt (Some t) now = (t < now)"

text \<open>\<open>cleanupExpiredBadgers\<close>, the daily expiration sweep.\<close>

definition cleanupExpiredBadgers :: "time \<Rightarrow> db \<Rightarrow> db" where
  "cleanupExpiredBadgers now =
     updateMany
       (\<lambda>b. status b \<notin> set [''completed'', ''cancelled'', ''expired''] \<and>
            date_lt (expiresAt b) now)
       (\<lambda>b. b\<lparr>status := ''expired''\<rparr>)"

text \<open>
  \<open>checkDeadlines\<close>, the hourly deadline sweep: its write (\<open>// Mark expired badgers\<close>).
  The warnings it sends before do not touch the collection.
\<close>

definition checkDeadlines :: "time \<Rightarrow> db \<Rightarrow> db" where
  "checkDeadlines now =
     updateMany
       (\<lambda>b. status b \<in> set [''received'', ''in-progress''] \<and>
            date_lt (deadline (task b)) now)
       (\<lambda>b. b\<lparr>status := ''expired''\<rparr>)"

section \<open>Binary64 arithmetic\<close>

text \<open>
  A JavaScript number is an IEEE 754 double. \<open>DFin r\<close> is a finite non-zero double of
  value \<open>r\<close>; zeros and infinities carry their sign (\<open>True\<close> for the negative one).
  Every arithmetic operation computes the exact result and rounds it to the nearest
  double, a tie to the one with the even significand.
\<close>

datatype double = DNaN | DInf bool | DZero bool | DFin rat

text \<open>The exponent \<open>e\<close> with \<open>2^e <= x < 2^(e + 1)\<close>, for a positive \<open>x\<close>.\<close>

definition binary_exponent :: "rat \<Rightarrow> int" where
  "binary_exponent x =
     (if 1 \<le> x then bitlen \<lfloor>x\<rfloor> - 1 else - bitlen (\<lceil>1 / x\<rceil> - 1))"

text \<open>The nearest integer, a tie to the even one.\<close>

definition round_even :: "rat \<Rightarrow> int" where
  "round_even y =
     (let f = \<lfloor>y\<rfloor>; d = y - of_int f
      in if d < 1 / 2 then f else if 1 / 2 < d then f + 1
         else if even f then f else f + 1)"

text \<open>
  The exponent of the last place of the double nearest to \<open>x\<close>: 52 places below the
  binary exponent, which is at least -1022 (below that, doubles are subnormal).
\<close>

definition ulp_exponent :: "rat \<Rightarrow> int" where
  "ulp_exponent x = max (binary_exponent \<bar>x\<bar>) (- 1022) - 52"

text \<open>\<open>x\<close> rounded to a multiple of \<open>2^g\<close>.\<close>

definition round_to :: "int \<Rightarrow> rat \<Rightarrow> rat" where
  "round_to g x = of_int (round_even (x / 2 powi g)) * 2 powi g"

definition overflow :: rat where
  "overflow = 2 ^ 1024"

text \<open>
  The double nearest to a rational: a result that rounds to zero keeps the sign, one
  that rounds to \<open>2^1024\<close> or beyond is an infinity.
\<close>

definition fl :: "rat \<Rightarrow> double" where
  "fl x =
     (if x = 0 then DZero False
      else let r = round_to (ulp_exponent x) x
           in if r = 0 then DZero (x < 0)
              else if overflow \<le> \<bar>r\<bar> then DInf (x < 0)
              else DFin r)"

fun d_negative :: "double \<Rightarrow> bool" where
  "d_negative DNaN = False"
| "d_negative (DInf s) = s"
| "d_negative (DZero s) = s"
| "d_negative (DFin r) = (r < 0)"

text \<open>\<open>x * y\<close>, \<open>x / y\<close>, \<open>x + y\<close>, \<open>-x\<close> and \<open>x - y\<close>.\<close>

fun d_mul :: "double \<Rightarrow> double \<Rightarrow> double" where
  "d_mul DNaN _ = DNaN"
| "d_mul _ DNaN = DNaN"
| "d_mul (DInf s) (DZero t) = DNaN"
| "d_mul (DZero s) (DInf t) = DNaN"
| "d_mul (DInf s) y = DInf (s \<noteq> d_negative y)"
| "d_mul x (DInf t) = DInf (d_negative x \<noteq> t)"
| "d_mul (DZero s) y = DZero (s \<noteq> d_negative y)"
| "d_mul x (DZero t) = DZero (d_negative x \<noteq> t)"
| "d_mul (DFin a) (DFin b) = fl (a * b)"

fun d_div :: "double \<Rightarrow> double \<Rightarrow> double" where
  "d_div DNaN _ = DNaN"
| "d_div _ DNaN = DNaN"
| "d_div (DInf s) (DInf t) = DNaN"
| "d_div (DZero s) (DZero t) = DNaN"
| "d_div (DInf s) y = DInf (s \<noteq> d_negative y)"
| "d_div x (DInf t) = DZero (d_negative x \<noteq> t)"
| "d_div (DZero s) y = DZero (s \<noteq> d_negative y)"
| "d_div x (DZero t) = DInf (d_negative x \<noteq> t)"
| "d_div (DFin a) (DFin b) = fl (a / b)"

fun d_add :: "double \<Rightarrow> double \<Rightarrow> double" where
  "d_add DNaN _ = DNaN"
| "d_add _ DNaN = DNaN"
| "d_add (DInf s) (DInf t) = (if s = t then DInf s else DNaN)"
| "d_add (DInf s) y = DInf s"
| "d_add x (DInf t) = DInf t"
| "d_add (DZero s) (DZero t) = DZero (s \<and> t)"
| "d_add (DZero s) y = y"
| "d_add x (DZero t) = x"
| "d_add (DFin a) (DFin b) = (if a + b = 0 then DZero False else fl (a + b))"

fun d_neg :: "double \<Rightarrow> double" where
  "d_neg DNaN = DNaN"
| "d_neg (DInf s) = DInf (\<not> s)"
| "d_neg (DZero s) = DZero (\<not> s)"
| "d_neg (DFin r) = DFin (- r)"

definition d_sub :: "double \<Rightarrow> double \<Rightarrow> double" where
  "d_sub x y = d_add x (d_neg y)"

text \<open>
  The place of a number in the order of the comparisons: nothing for \<open>NaN\<close>, both
  zeros at 0, the infinities below and above every finite number.
\<close>

fun d_place :: "double \<Rightarrow> (int \<times> rat) option" where
  "d_place DNaN = None"
| "d_place (DInf s) = Some (if s then - 1 else 1, 0)"
| "d_place (DZero s) = Some (0, 0)"
| "d_place (DFin r) = Some (0, r)"

text \<open>\<open>x >= y\<close> and \<open>x === y\<close>.\<close>

definition d_ge :: "double \<Rightarrow> double \<Rightarrow> bool" where
  "d_ge x y =
     (case (d_place x, d_place y) of
        (Some (i, a), Some (j, b)) \<Rightarrow> j < i \<or> (j = i \<and> b \<le> a)
      | _ \<Rightarrow> False)"

definition d_eq :: "double \<Rightarrow> double \<Rightarrow> bool" where
  "d_eq x y = (d_place x \<noteq> None \<and> d_place x = d_place y)"

text \<open>\<open>Math.min(x, y)\<close>; of the two zeros the negative one is the lesser.\<close>

fun d_min :: "double \<Rightarrow> double \<Rightarrow> double" where
  "d_min DNaN _ = DNaN"
| "d_min _ DNaN = DNaN"
| "d_min (DZero s) (DZero t) = DZero (s \<or> t)"
| "d_min x y = (if d_ge x y then y else x)"

text \<open>
  \<open>Math.round(x)\<close>: the integer nearest to \<open>x\<close>, a half rounded up; a result of zero
  keeps the sign of \<open>x\<close>.
\<close>

fun d_round :: "double \<Rightarrow> double" where
  "d_round (DFin a) =
     (let n = \<lfloor>a + 1 / 2\<rfloor> in if n = 0 then DZero (a < 0) else DFin (of_int n))"
| "d_round x = x"

text \<open>
  The double of an integer: the value of an array's \<open>length\<close>, and what \<open>parseInt\<close>
  returns for the decimal numeral of the integer.
\<close>

definition d_int :: "int \<Rightarrow> double" where
  "d_int n = (if n = 0 then DZero False else fl (of_int n))"

section \<open>The fitness evaluator in binary64\<close>

text \<open>
  \<open>calculateFitnessProgress\<close> once more, on doubles, for the percentage it returns:
  the requirements of the task with a target that is a double or a string, the
  snapshot of doubles, and the result.
\<close>

datatype value64 = Num64 double | Str64 string

record requirement64 =
  req_type64 :: string
  target64 :: value64

record fitnessData64 =
  steps64 :: double
  exerciseMinutes64 :: double
  distance64 :: double
  calories64 :: double

record progress_result64 =
  percentage64 :: double
  completed64 :: bool

text \<open>The conversion of the divisor; \<open>tn\<close> is \<open>ToNumber\<close> on strings.\<close>

fun to_number64 :: "(string \<Rightarrow> double) \<Rightarrow> value64 \<Rightarrow> double" where
  "to_number64 tn (Num64 n) = n"
| "to_number64 tn (Str64 s) = tn s"

definition requirementProgress64 ::
  "(string \<Rightarrow> double) \<Rightarrow> fitnessData64 \<Rightarrow> requirement64 \<Rightarrow> double" where
  "requirementProgress64 tn fd r =
     (if req_type64 r = ''step-count''
        then d_min (d_div (steps64 fd) (to_number64 tn (target64 r))) (DFin 1)
      else if req_type64 r = ''exercise-minutes''
        then d_min (d_div (exerciseMinutes64 fd) (to_number64 tn (target64 r))) (DFin 1)
      else if req_type64 r = ''distance''
        then d_min (d_div (distance64 fd) (to_number64 tn (target64 r))) (DFin 1)
      else if req_type64 r = ''calories''
        then d_min (d_div (calories64 fd) (to_number64 tn (target64 r))) (DFin 1)
      else DZero False)"

text \<open>
  The loop: the state is (\<open>totalProgress\<close>, \<open>completedRequirements\<close>). The counter
  stays below the length of an array, where counting in doubles is exact.
\<close>

fun fitnessLoop64 ::
  "(string \<Rightarrow> double) \<Rightarrow> fitnessData64 \<Rightarrow> requirement64 list \<Rightarrow> double \<times> nat
     \<Rightarrow> double \<times> nat" where
  "fitnessLoop64 tn fd [] (totalProgress, n) = (totalProgress, n)"
| "fitnessLoop64 tn fd (r # rs) (totalProgress, n) =
     (let p = requirementProgress64 tn fd r
      in fitnessLoop64 tn fd rs
           (d_add totalProgress p, if d_ge p (DFin 1) then n + 1 else n))"

definition calculateFitnessProgress64 ::
  "(string \<Rightarrow> double) \<Rightarrow> requirement64 list \<Rightarrow> fitnessData64 \<Rightarrow> progress_result64" where
  "calculateFitnessProgress64 tn reqs fd =
     (let (totalProgress, completedRequirements) = fitnessLoop64 tn fd reqs (DZero False, 0)
      in \<lparr>percentage64 =
            d_round (d_mul (d_div totalProgress (d_int (int (length reqs)))) (DFin 100)),
          completed64 = (completedRequirements = length reqs)\<rparr>)"

section \<open>Chat timeline\<close>

text \<open>
  \<open>Array.prototype.slice(start, stop)\<close> with both bounds given: a bound is made an
  integer (\<open>NaN\<close> and the zeros are 0, a fraction is cut off, an infinity stays), a
  negative one counts from the end, and both are kept within the array.
\<close>

definition truncate_rat :: "rat \<Rightarrow> int" where
  "truncate_rat r = (if r < 0 then \<lceil>r\<rceil> else \<lfloor>r\<rfloor>)"

fun relative_index :: "nat \<Rightarrow> double \<Rightarrow> nat" where
  "relative_index len DNaN = 0"
| "relative_index len (DZero s) = 0"
| "relative_index len (DInf s) = (if s then 0 else len)"
| "relative_index len (DFin r) =
     (let i = truncate_rat r
      in if i < 0 then nat (max (int len + i) 0) else min (nat i) len)"

definition js_slice :: "'a list \<Rightarrow> double \<Rightarrow> double \<Rightarrow> 'a list" where
  "js_slice xs start stop =
     (let k = relative_index (length xs) start;
          final = relative_index (length xs) stop
      in take (final - k) (drop k xs))"

text \<open>
  The read of \<open>router.get('/:badgerId')\<close> in the chat routes. \<open>page\<close> and \<open>limit\<close> are
  the doubles \<open>parseInt\<close> returned for the query parameters: \<open>NaN\<close>, an integer, or
  an infinity for a numeral beyond the doubles.
\<close>

definition chatHistory :: "message list \<Rightarrow> double \<Rightarrow> double \<Rightarrow> message list" where
  "chatHistory messages page limit =
     (let skip = d_mul (d_sub page (DFin 1)) limit
      in rev (js_slice (rev messages) skip (d_add skip limit)))"

text \<open>
  \<open>calculateEngagementLevel\<close>; \<open>now\<close> is the clock it reads. \<open>totalDays\<close> and
  \<open>messagesPerDay\<close> are its local values of these names, computed once the log is
  known to have a first message.
\<close>

definition totalDays :: "time \<Rightarrow> message \<Rightarrow> int" where
  "totalDays now first =
     max 1 \<lceil>(of_int (now - msg_timestamp first) :: rat) / (1000 * 60 * 60 * 24)\<rceil>"

definition messagesPerDay :: "time \<Rightarrow> message \<Rightarrow> message list \<Rightarrow> rat" where
  "messagesPerDay now first messages =
     of_nat (length (filter (\<lambda>msg. msg_senderId msg \<noteq> ''badger'') messages))
       / of_int (totalDays now first)"

definition calculateEngagementLevel :: "time \<Rightarrow> message list \<Rightarrow> string" where
  "calculateEngagementLevel now messages =
     (case messages of
        [] \<Rightarrow> ''none''
      | first # rest \<Rightarrow>
          if messagesPerDay now first messages \<ge> 3 then ''high''
          else if messagesPerDay now first messages \<ge> 1 then ''medium''
          else if messagesPerDay now first messages > 0 then ''low''
          else ''none'')"

section \<open>A transition request and a concurrent writer\<close>

text \<open>
  \<open>save\<close> of a loaded document writes the paths the route modified, under the \<open>_id\<close>
  alone: the schema does not enable \<open>optimisticConcurrency\<close> and the transition route
  modifies no array, so no version is compared. \<open>changes\<close> are the modifications;
  the result is \<open>None\<close> when no document has the \<open>_id\<close> any more and \<open>save\<close> throws.
\<close>

definition save_changes :: "string \<Rightarrow> (badger \<Rightarrow> badger) \<Rightarrow> db \<Rightarrow> db option" where
  "save_changes i changes d =
     (case d i of None \<Rightarrow> None | Some stored \<Rightarrow> Some (d(i \<mapsto> changes stored)))"

text \<open>
  \<open>router.patch('/:id/status')\<close> with the write \<open>other\<close> of another request or sweep
  landing between its \<open>findOne\<close> and its \<open>save\<close> (both are awaited). The route
  decides on the document it read.
\<close>

definition patch_status_concurrent ::
  "(db \<Rightarrow> db) \<Rightarrow> db \<Rightarrow> string \<Rightarrow> string \<Rightarrow> string \<Rightarrow> time \<Rightarrow> (error + badger) \<times> db" where
  "patch_status_concurrent other d user i s now =
     (case findOne_party d i user of
        None \<Rightarrow> (Inl NotFound, other d)
      | Some b \<Rightarrow>
          if \<not> transition_allowed (status b) s
          then (Inl (InvalidTransition (status b) s), other d)
          else case save_changes i (patch_status_changes s now) (other d) of
            None \<Rightarrow> (Inl Failed, other d)
          | Some d' \<Rightarrow> (Inr (patch_status_changes s now b), d'))"

section \<open>The specification's side\<close>

text \<open>The transition table as the specification lists it, as pairs (current, requested).\<close>

definition transition_table :: "(string \<times> string) list" where
  "transition_table =
     [(''sent'', ''received''), (''sent'', ''cancelled''),
      (''received'', ''in-progress''), (''received'', ''cancelled''),
      (''in-progress'', ''awaiting-verification''), (''in-progress'', ''cancelled''),
      (''awaiting-verification'', ''completed''),
      (''awaiting-verification'', ''in-progress'')]"

text \<open>
  The fitness-based evaluator in the specification's words: the metric a requirement
  type selects, the ratio \<open>min(observed / target, 1)\<close>, the average of the ratios, and
  the result. A requirement of another type selects no metric and its ratio is 0, the
  value the source starts from.
\<close>

definition spec_metric :: "fitnessData \<Rightarrow> string \<Rightarrow> jsnum option" where
  "spec_metric fd ty =
     (if ty = ''step-count'' then Some (steps fd)
      else if ty = ''exercise-minutes'' then Some (exerciseMinutes fd)
      else if ty = ''distance'' then Some (distance fd)
      else if ty = ''calories'' then Some (calories fd)
      else None)"

definition spec_ratio :: "(string \<Rightarrow> jsnum) \<Rightarrow> fitnessData \<Rightarrow> requirement \<Rightarrow> jsnum" where
  "spec_ratio tn fd r =
     (case spec_metric fd (req_type r) of
        Some observed \<Rightarrow> js_min (js_div observed (to_number tn (target r))) (Fin 1)
      | None \<Rightarrow> Fin 0)"

definition average :: "jsnum list \<Rightarrow> jsnum" where
  "average xs = js_div (foldl js_add (Fin 0) xs) (Fin (of_nat (length xs)))"

definition spec_fitness_progress ::
  "(string \<Rightarrow> jsnum) \<Rightarrow> fitnessData \<Rightarrow> requirement list \<Rightarrow> progress_result" where
  "spec_fitness_progress tn fd reqs =
     \<lparr>percentage = js_round (js_mul (average (map (spec_ratio tn fd) reqs)) (Fin 100)),
      completed = list_all (\<lambda>r. js_ge (spec_ratio tn fd r) (Fin 1)) reqs\<rparr>"

text \<open>
  The reading of the specification for a requirement with a numeric target: satisfied
  exactly when the batch holds a submission of the requirement's type whose content
  parses to a number that is at least the target. A string parses when it is a decimal
  numeral; a content that is a number already is its own value.
\<close>

definition is_digit :: "char \<Rightarrow> bool" where
  "is_digit c = (c \<in> set ''0123456789'')"

definition decimal_value :: "string \<Rightarrow> nat" where
  "decimal_value s = foldl (\<lambda>n c. 10 * n + (of_char c - 48)) 0 s"

fun spec_parse :: "jsval \<Rightarrow> jsnum option" where
  "spec_parse (VNum n) = Some n"
| "spec_parse (VStr s) =
     (if s \<noteq> [] \<and> list_all is_digit s then Some (Fin (of_nat (decimal_value s))) else None)"

definition spec_numeric_satisfied :: "requirement \<Rightarrow> submission list \<Rightarrow> bool" where
  "spec_numeric_satisfied r subs =
     list_ex (\<lambda>s. sub_type s = req_type r \<and>
                  (case spec_parse (content s) of
                     Some v \<Rightarrow> val_ge (VNum v) (target r)
                   | None \<Rightarrow> False)) subs"

text \<open>Every content of a batch is a non-empty string.\<close>

definition string_contents :: "submission list \<Rightarrow> bool" where
  "string_contents subs =
     list_all (\<lambda>s. case content s of VStr c \<Rightarrow> c \<noteq> [] | VNum _ \<Rightarrow> False) subs"

text \<open>
  The chat read in the specification's words: the elements of the reversed log whose
  index lies in \<open>[skip, skip + limit)\<close>, reversed back.
\<close>

definition index_range :: "'a list \<Rightarrow> int \<Rightarrow> int \<Rightarrow> 'a list" where
  "index_range xs a b = map (\<lambda>k. xs ! nat k) [max 0 a .. min (int (length xs)) b - 1]"

definition spec_page :: "message list \<Rightarrow> int \<Rightarrow> int \<Rightarrow> message list" where
  "spec_page messages page limit =
     (let skip = (page - 1) * limit
      in rev (index_range (rev messages) skip (skip + limit)))"

text \<open>
  The same formula with every operation rounded to a double: the ratio, the average
  (the sum from the left, divided by the count), the percentage and the flag.
\<close>

definition spec_metric64 :: "fitnessData64 \<Rightarrow> string \<Rightarrow> double option" where
  "spec_metric64 fd ty =
     (if ty = ''step-count'' then Some (steps64 fd)
      else if ty = ''exercise-minutes'' then Some (exerciseMinutes64 fd)
      else if ty = ''distance'' then Some (distance64 fd)
      else if ty = ''calories'' then Some (calories64 fd)
      else None)"

definition spec_ratio64 :: "(string \<Rightarrow> double) \<Rightarrow> fitnessData64 \<Rightarrow> requirement64 \<Rightarrow> double" where
  "spec_ratio64 tn fd r =
     (case spec_metric64 fd (req_type64 r) of
        Some observed \<Rightarrow> d_min (d_div observed (to_number64 tn (target64 r))) (DFin 1)
      | None \<Rightarrow> DZero False)"

definition average64 :: "double list \<Rightarrow> double" where
  "average64 xs = d_div (foldl d_add (DZero False) xs) (d_int (int (length xs)))"

definition spec_fitness_progress64 ::
  "(string \<Rightarrow> double) \<Rightarrow> fitnessData64 \<Rightarrow> requirement64 list \<Rightarrow> progress_result64" where
  "spec_fitness_progress64 tn fd reqs =
     \<lparr>percentage64 = d_round (d_mul (average64 (map (spec_ratio64 tn fd) reqs)) (DFin 100)),
      completed64 = list_all (\<lambda>r. d_ge (spec_ratio64 tn fd r) (DFin 1)) reqs\<rparr>"

text \<open>The double \<open>x\<close> is the integer \<open>n\<close>, a zero of either sign when \<open>n\<close> is 0.\<close>

definition holds_int :: "double \<Rightarrow> int \<Rightarrow> bool" where
  "holds_int x n =
     (if n = 0 then x = DZero False \<or> x = DZero True else x = DFin (of_int n))"

text \<open>
  The double \<open>x\<close> is at least \<open>c\<close>: \<open>Infinity\<close>, or a finite double from \<open>c\<close> on.
\<close>

fun at_least :: "rat \<Rightarrow> double \<Rightarrow> bool" where
  "at_least c (DInf s) = (\<not> s)"
| "at_least c (DFin r) = (c \<le> r)"
| "at_least c x = False"

section \<open>Example data\<close>

definition demo_task :: task where
  "demo_task =
     \<lparr>task_type = ''fitness'',
      requirements = [\<lparr>req_type = ''step-count'', target = VNum (Fin 10000)\<rparr>,
                      \<lparr>req_type = ''distance'', target = VNum (Fin 5)\<rparr>],
      verificationMethod = ''manual'', deadline = None,
      progress = \<lparr>percentage = Fin 0, completed = False, verificationStatus = ''pending'',
                  submissions = [], lastUpdated = 0\<rparr>\<rparr>"

definition demo_badger :: "string \<Rightarrow> badger" where
  "demo_badger st =
     \<lparr>senderId = ''alice'', recipientId = ''bob'', status = st, task = demo_task,
      chat = [], expiresAt = None, completedAt = None\<rparr>"

definition demo_snapshot :: fitnessData where
  "demo_snapshot =
     \<lparr>steps = Fin 5000, exerciseMinutes = Fin 0, distance = Fin 5, calories = Fin 0\<rparr>"

definition demo_snapshot_done :: fitnessData where
  "demo_snapshot_done =
     \<lparr>steps = Fin 12000, exerciseMinutes = Fin 0, distance = Fin 5, calories = Fin 0\<rparr>"

definition demo_report_task :: task where
  "demo_report_task =
     \<lparr>task_type = ''custom'',
      requirements = [\<lparr>req_type = ''text'', target = VStr ''n/a''\<rparr>,
                      \<lparr>req_type = ''photo'', target = VStr ''n/a''\<rparr>],
      verificationMethod = ''manual'', deadline = None,
      progress = \<lparr>percentage = Fin 0, completed = False, verificationStatus = ''pending'',
                  submissions = [], lastUpdated = 0\<rparr>\<rparr>"

definition demo_report :: "submission list" where
  "demo_report =
     [\<lparr>sub_type = ''text'', content = VStr ''done'', sub_timestamp = 0\<rparr>,
      \<lparr>sub_type = ''photo'', content = VStr ''p.jpg'', sub_timestamp = 0\<rparr>]"

definition demo_db :: "string \<Rightarrow> db" where
  "demo_db st = [''b1'' \<mapsto> (demo_badger st)\<lparr>task := demo_report_task\<rparr>]"

definition demo_message :: "time \<Rightarrow> message" where
  "demo_message t =
     \<lparr>msg_senderId = ''bob'', msg_content = ''hello'', msg_type = ''text'', msg_timestamp = t\<rparr>"

definition demo_chat :: "message list" where
  "demo_chat = map demo_message [1, 2, 3, 4, 5]"

definition demo_engagement_chat :: "message list" where
  "demo_engagement_chat = map demo_message [0, 1000, 2000, 3000]"

definition demo_due :: badger where
  "demo_due = (demo_badger ''in-progress'')\<lparr>task := demo_task\<lparr>deadline := Some 5\<rparr>\<rparr>"

definition demo_requirements64 :: "requirement64 list" where
  "demo_requirements64 =
     [\<lparr>req_type64 = ''step-count'', target64 = Num64 (DFin 10000)\<rparr>,
      \<lparr>req_type64 = ''distance'', target64 = Num64 (DFin 5)\<rparr>]"

definition demo_snapshot64 :: "double \<Rightarrow> fitnessData64" where
  "demo_snapshot64 s =
     \<lparr>steps64 = s, exerciseMinutes64 = DZero False, distance64 = DFin 5,
      calories64 = DZero False\<rparr>"

section \<open>The status-transition request\<close>

lemma transition_allowed_table:
  "transition_allowed cur s \<longleftrightarrow> (cur, s) \<in> set transition_table"
  by (auto simp: transition_allowed_def allowedTransitions_def transition_table_def
      split: if_splits)

text \<open>
  Claim C1. A status-transition request on a delivery the requester may see succeeds
  exactly for the pairs of the table: it then stores the requested status, and on
  \<open>completed\<close> also the completion time, \<open>progress.completed = true\<close> and
  \<open>progress.percentage = 100\<close>. For every other pair it answers the invalid-transition
  error and leaves the collection as it was.
\<close>

theorem status_transition_table:
  assumes "findOne_party d i user = Some b"
  shows "((status b, s) \<in> set transition_table \<longrightarrow>
            (\<exists>b'. patch_status d user i s now = (Inr b', d(i \<mapsto> b')) \<and> status b' = s \<and>
                  (s = ''completed'' \<longrightarrow>
                     completedAt b' = Some now \<and> completed (progress (task b')) \<and>
                     percentage (progress (task b')) = Fin 100))) \<and>
         ((status b, s) \<notin> set transition_table \<longrightarrow>
            patch_status d user i s now = (Inl (InvalidTransition (status b) s), d))"
  using assms
  by (simp add: patch_status_def transition_allowed_table patch_status_changes_def Let_def)

theorem status_transition_table_witness:
  "findOne_party [''b1'' \<mapsto> demo_badger ''awaiting-verification''] ''b1'' ''alice''
     = Some (demo_badger ''awaiting-verification'') \<and>
   (''awaiting-verification'', ''completed'') \<in> set transition_table \<and>
   (\<exists>b'. patch_status [''b1'' \<mapsto> demo_badger ''awaiting-verification''] ''alice'' ''b1''
            ''completed'' 7
           = (Inr b', [''b1'' \<mapsto> b']) \<and> status b' = ''completed'' \<and>
          completedAt b' = Some 7 \<and> completed (progress (task b')) \<and>
          percentage (progress (task b')) = Fin 100) \<and>
   (''awaiting-verification'', ''cancelled'') \<notin> set transition_table \<and>
   patch_status [''b1'' \<mapsto> demo_badger ''awaiting-verification''] ''alice'' ''b1''
     ''cancelled'' 7
     = (Inl (InvalidTransition ''awaiting-verification'' ''cancelled''),
        [''b1'' \<mapsto> demo_badger ''awaiting-verification''])"
proof -
  let ?d = "[''b1'' \<mapsto> demo_badger ''awaiting-verification'']"
  have f: "findOne_party ?d ''b1'' ''alice'' = Some (demo_badger ''awaiting-verification'')"
    by (simp add: findOne_party_def demo_badger_def)
  have st: "status (demo_badger ''awaiting-verification'') = ''awaiting-verification''"
    by (simp add: demo_badger_def)
  have m1: "(''awaiting-verification'', ''completed'') \<in> set transition_table"
    by (simp add: transition_table_def)
  have m2: "(''awaiting-verification'', ''cancelled'') \<notin> set transition_table"
    by (simp add: transition_table_def)
  from status_transition_table [OF f, of "''completed''" 7] m1 st
  have a: "\<exists>b'. patch_status ?d ''alice'' ''b1'' ''completed'' 7 = (Inr b', ?d(''b1'' \<mapsto> b')) \<and>
      status b' = ''completed'' \<and> completedAt b' = Some 7 \<and> completed (progress (task b')) \<and>
      percentage (progress (task b')) = Fin 100"
    by simp
  from status_transition_table [OF f, of "''cancelled''" 7] m2 st
  have b: "patch_status ?d ''alice'' ''b1'' ''cancelled'' 7
     = (Inl (InvalidTransition ''awaiting-verification'' ''cancelled''), ?d)"
    by simp
  show ?thesis using f m1 m2 a b by simp
qed

section \<open>The progress evaluators\<close>

text \<open>The loop of the fitness evaluator as a fold and a count.\<close>

lemma fitnessLoop_fold:
  "fitnessLoop tn fd rs (t, n) =
     (foldl js_add t (map (requirementProgress tn fd) rs),
      n + length (filter (\<lambda>r. js_ge (requirementProgress tn fd r) (Fin 1)) rs))"
  by (induction rs arbitrary: t n) (simp_all add: Let_def)

lemma filter_all_length: "length (filter P xs) = length xs \<longleftrightarrow> list_all P xs"
proof (induction xs)
  case Nil
  show ?case by simp
next
  case (Cons x xs)
  have "length (filter P xs) \<noteq> Suc (length xs)"
    using length_filter_le [of P xs] by arith
  with Cons show ?case by auto
qed

lemma progress_reaches_one:
  "js_ge (requirementProgress tn fd r) (Fin 1) \<Longrightarrow> requirementProgress tn fd r = Fin 1"
  by (auto simp: requirementProgress_def js_min_def split: if_splits)

lemma fold_ones:
  "\<forall>x \<in> set xs. x = Fin 1 \<Longrightarrow> foldl js_add (Fin t) xs = Fin (t + of_nat (length xs))"
  by (induction xs arbitrary: t) (simp_all add: algebra_simps)

lemma fitness_completed_percentage:
  assumes "requirements (task b) \<noteq> []" and "completed (calculateFitnessProgress tn b fd)"
  shows "percentage (calculateFitnessProgress tn b fd) = Fin 100"
proof -
  let ?rs = "requirements (task b)"
  let ?ps = "map (requirementProgress tn fd) ?rs"
  from assms(2) have "list_all (\<lambda>r. js_ge (requirementProgress tn fd r) (Fin 1)) ?rs"
    by (simp add: calculateFitnessProgress_def fitnessLoop_fold filter_all_length Let_def)
  then have "\<forall>x \<in> set ?ps. x = Fin 1"
    by (auto simp: list_all_iff dest: progress_reaches_one)
  then have "foldl js_add (Fin 0) ?ps = Fin (of_nat (length ?rs))"
    using fold_ones [of ?ps 0] by simp
  moreover have "(of_nat (length ?rs) :: rat) \<noteq> 0" using assms(1) by simp
  ultimately show ?thesis
    by (simp add: calculateFitnessProgress_def fitnessLoop_fold Let_def floor_eq_iff)
qed

text \<open>
  Claim C2. For both evaluators, a result with \<open>completed = true\<close> has
  \<open>percentage = 100\<close>: for the submission-based evaluator on every task and batch, for
  the fitness-based evaluator on every snapshot and every task that has a requirement
  (a task definition has at least one: the creation schema demands it).
\<close>

theorem completed_implies_full:
  "(completed (calculateTaskProgress b subs) \<longrightarrow>
      percentage (calculateTaskProgress b subs) = Fin 100) \<and>
   (requirements (task b) \<noteq> [] \<longrightarrow> completed (calculateFitnessProgress tn b fd) \<longrightarrow>
      percentage (calculateFitnessProgress tn b fd) = Fin 100)"
  by (auto simp: fitness_completed_percentage calculateTaskProgress_def js_eq_def Let_def)

theorem completed_implies_full_witness:
  "completed (calculateTaskProgress ((demo_badger ''received'')\<lparr>task := demo_report_task\<rparr>)
     demo_report) \<and>
   percentage (calculateTaskProgress ((demo_badger ''received'')\<lparr>task := demo_report_task\<rparr>)
     demo_report) = Fin 100 \<and>
   requirements (task (demo_badger ''received'')) \<noteq> [] \<and>
   completed (calculateFitnessProgress (\<lambda>s. NaN) (demo_badger ''received'')
     demo_snapshot_done) \<and>
   percentage (calculateFitnessProgress (\<lambda>s. NaN) (demo_badger ''received'')
     demo_snapshot_done) = Fin 100"
proof -
  let ?b = "(demo_badger ''received'')\<lparr>task := demo_report_task\<rparr>"
  have c1: "completed (calculateTaskProgress ?b demo_report)"
    by (simp add: calculateTaskProgress_def demo_badger_def demo_report_task_def
        demo_report_def js_eq_def Let_def floor_eq_iff)
  have n: "requirements (task (demo_badger ''received'')) \<noteq> []"
    by (simp add: demo_badger_def demo_task_def)
  have c2: "completed (calculateFitnessProgress (\<lambda>s. NaN) (demo_badger ''received'')
              demo_snapshot_done)"
    by (simp add: calculateFitnessProgress_def demo_badger_def demo_task_def
        demo_snapshot_done_def requirementProgress_def js_min_def Let_def)
  from completed_implies_full [of ?b demo_report "\<lambda>s. NaN" demo_snapshot_done] c1
  have p1: "percentage (calculateTaskProgress ?b demo_report) = Fin 100" by simp
  from completed_implies_full [of "demo_badger ''received''" demo_report "\<lambda>s. NaN"
      demo_snapshot_done] n c2
  have p2: "percentage (calculateFitnessProgress (\<lambda>s. NaN) (demo_badger ''received'')
              demo_snapshot_done) = Fin 100" by simp
  show ?thesis using c1 n c2 p1 p2 by simp
qed

section \<open>Rounding to a double\<close>

lemma round_even_int [simp]: "round_even (of_int m) = m"
  by (simp add: round_even_def)

lemma round_to_int:
  assumes "g \<le> 0"
  shows "round_to g (of_int n) = of_int n"
proof -
  define k where "k = nat (- g)"
  have g: "g = - int k" using assms by (simp add: k_def)
  have u: "(2::rat) powi g = 1 / 2 ^ k"
    by (simp only: g) (simp add: power_int_minus field_simps)
  have q: "(of_int n :: rat) / (1 / 2 ^ k) = of_int (n * 2 ^ k)" by simp
  show ?thesis
    by (simp only: round_to_def u q round_even_int) simp
qed

lemma bitlen_safe:
  assumes "0 < n" and "n < 2 ^ 53"
  shows "1 \<le> bitlen n" and "bitlen n \<le> 53"
proof -
  from bitlen_bounds [OF assms(1)] have b: "2 ^ nat (bitlen n - 1) \<le> n" by simp
  show "1 \<le> bitlen n" using assms(1) by (simp add: bitlen_alt_def)
  show "bitlen n \<le> 53"
  proof (rule ccontr)
    assume "\<not> bitlen n \<le> 53"
    then have "53 \<le> nat (bitlen n - 1)" by simp
    then have "(2::int) ^ 53 \<le> 2 ^ nat (bitlen n - 1)"
      by (rule power_increasing) simp
    with b assms(2) show False by simp
  qed
qed

lemma ulp_exponent_int:
  assumes "n \<noteq> 0" and "\<bar>n\<bar> < 2 ^ 53"
  shows "ulp_exponent (of_int n) \<le> 0"
proof -
  have p: "0 < \<bar>n\<bar>" using assms(1) by simp
  have a: "\<bar>of_int n :: rat\<bar> = of_int \<bar>n\<bar>" by simp
  have "1 \<le> \<bar>n\<bar>" using p by linarith
  then have o: "(1::rat) \<le> of_int \<bar>n\<bar>" by (metis of_int_1 of_int_le_iff)
  have "binary_exponent (of_int \<bar>n\<bar>) = bitlen \<bar>n\<bar> - 1"
    using o by (simp only: binary_exponent_def if_True floor_of_int)
  with bitlen_safe [OF p assms(2)] show ?thesis
    by (simp only: ulp_exponent_def a)
qed

lemma safe_below_overflow:
  assumes "\<bar>n\<bar> < 2 ^ 53"
  shows "\<not> overflow \<le> \<bar>of_int n :: rat\<bar>"
proof -
  have "\<bar>of_int n :: rat\<bar> = of_int \<bar>n\<bar>" by simp
  also have "\<dots> < of_int (2 ^ 53)" using assms by (simp only: of_int_less_iff)
  also have "\<dots> = (2::rat) ^ 53" by simp
  also have "\<dots> \<le> 2 ^ 1024" by (rule power_increasing) simp_all
  finally show ?thesis by (simp add: overflow_def)
qed

text \<open>An integer of magnitude below \<open>2^53\<close> is a double.\<close>

lemma fl_int:
  assumes "n \<noteq> 0" and "\<bar>n\<bar> < 2 ^ 53"
  shows "fl (of_int n) = DFin (of_int n)"
proof -
  have r: "round_to (ulp_exponent (of_int n)) (of_int n) = of_int n"
    by (rule round_to_int [OF ulp_exponent_int [OF assms]])
  show ?thesis
    using assms(1) safe_below_overflow [OF assms(2)]
    by (simp only: fl_def r Let_def) simp
qed

lemma fl_small_ints: "fl 1 = DFin 1" "fl 2 = DFin 2" "fl 75 = DFin 75"
  using fl_int [of 1] fl_int [of 2] fl_int [of 75] by simp_all

text \<open>
  The rounding of a given rational, from its binary exponent and the rounded
  significand.
\<close>

lemma fl_certificate:
  assumes "x \<noteq> 0" and "binary_exponent \<bar>x\<bar> = e" and "- 1022 \<le> e"
    and "2 powi (e - 52) = u" and "round_even (x / u) = m" and "m \<noteq> 0"
    and "\<bar>of_int m * u\<bar> < overflow"
  shows "fl x = DFin (of_int m * u)"
proof -
  have g: "ulp_exponent x = e - 52"
    using assms(2,3) by (simp add: ulp_exponent_def)
  have r: "round_to (ulp_exponent x) x = of_int m * u"
    by (simp only: g round_to_def assms(4,5))
  have u: "u \<noteq> 0" using assms(4) by auto
  show ?thesis
    using assms(1,6,7) u by (simp only: fl_def r Let_def) simp
qed

lemma floor_rat_numeral: "\<lfloor>numeral a / numeral b :: rat\<rfloor> = numeral a div numeral b"
  by (metis floor_divide_of_int_eq of_int_numeral)

lemma floor_rat_minus_numeral:
  "\<lfloor>- (numeral a / numeral b) :: rat\<rfloor> = - numeral a div numeral b"
  by (metis divide_minus_left floor_divide_of_int_eq of_int_neg_numeral of_int_numeral)

lemmas eval_floor = floor_rat_numeral floor_rat_minus_numeral ceiling_def
lemmas eval_exponent = binary_exponent_def bitlen_def compute_floorlog eval_floor
lemmas eval_round = round_even_def Let_def eval_floor

lemma fl_29_200: "fl (29 / 200) = DFin (5224175567749775 / 36028797018963968)"
proof -
  have "fl (29 / 200) = DFin (of_int 5224175567749775 * (1 / 36028797018963968))"
  proof (rule fl_certificate [where e = "- 3"])
    show "binary_exponent \<bar>29 / 200\<bar> = - 3" by (simp add: eval_exponent)
    show "(2::rat) powi (- 3 - 52) = 1 / 36028797018963968" by (simp add: power_int_minus)
    show "round_even (29 / 200 / (1 / 36028797018963968)) = 5224175567749775"
      by (simp add: eval_round)
    show "\<bar>rat_of_int 5224175567749775 * (1 / 36028797018963968)\<bar> < overflow"
      by (simp add: overflow_def)
  qed simp_all
  then show ?thesis by simp
qed

lemma fl_again: "fl (5224175567749775 / 36028797018963968) = DFin (5224175567749775 / 36028797018963968)"
proof -
  have "fl (5224175567749775 / 36028797018963968) = DFin (of_int 5224175567749775 * (1 / 36028797018963968))"
  proof (rule fl_certificate [where e = "- 3"])
    show "binary_exponent \<bar>5224175567749775 / 36028797018963968\<bar> = - 3" by (simp add: eval_exponent)
    show "(2::rat) powi (- 3 - 52) = 1 / 36028797018963968" by (simp add: power_int_minus)
    show "round_even (5224175567749775 / 36028797018963968 / (1 / 36028797018963968)) = 5224175567749775"
      by (simp add: eval_round)
    show "\<bar>rat_of_int 5224175567749775 * (1 / 36028797018963968)\<bar> < overflow"
      by (simp add: overflow_def)
  qed simp_all
  then show ?thesis by simp
qed

lemma fl_times_100: "fl (130604389193744375 / 9007199254740992) = DFin (8162774324609023 / 562949953421312)"
proof -
  have "fl (130604389193744375 / 9007199254740992) = DFin (of_int 8162774324609023 * (1 / 562949953421312))"
  proof (rule fl_certificate [where e = "3"])
    show "binary_exponent \<bar>130604389193744375 / 9007199254740992\<bar> = 3" by (simp add: eval_exponent)
    show "(2::rat) powi (3 - 52) = 1 / 562949953421312" by (simp add: power_int_minus)
    show "round_even (130604389193744375 / 9007199254740992 / (1 / 562949953421312)) = 8162774324609023"
      by (simp add: eval_round)
    show "\<bar>rat_of_int 8162774324609023 * (1 / 562949953421312)\<bar> < overflow"
      by (simp add: overflow_def)
  qed simp_all
  then show ?thesis by simp
qed

lemma fl_1_2: "fl (1 / 2) = DFin (1 / 2)"
proof -
  have "fl (1 / 2) = DFin (of_int 4503599627370496 * (1 / 9007199254740992))"
  proof (rule fl_certificate [where e = "- 1"])
    show "binary_exponent \<bar>1 / 2\<bar> = - 1" by (simp add: eval_exponent)
    show "(2::rat) powi (- 1 - 52) = 1 / 9007199254740992" by (simp add: power_int_minus)
    show "round_even (1 / 2 / (1 / 9007199254740992)) = 4503599627370496"
      by (simp add: eval_round)
    show "\<bar>rat_of_int 4503599627370496 * (1 / 9007199254740992)\<bar> < overflow"
      by (simp add: overflow_def)
  qed simp_all
  then show ?thesis by simp
qed

lemma fl_3_2: "fl (3 / 2) = DFin (3 / 2)"
proof -
  have "fl (3 / 2) = DFin (of_int 6755399441055744 * (1 / 4503599627370496))"
  proof (rule fl_certificate [where e = "0"])
    show "binary_exponent \<bar>3 / 2\<bar> = 0" by (simp add: eval_exponent)
    show "(2::rat) powi (0 - 52) = 1 / 4503599627370496" by (simp add: power_int_minus)
    show "round_even (3 / 2 / (1 / 4503599627370496)) = 6755399441055744"
      by (simp add: eval_round)
    show "\<bar>rat_of_int 6755399441055744 * (1 / 4503599627370496)\<bar> < overflow"
      by (simp add: overflow_def)
  qed simp_all
  then show ?thesis by simp
qed

lemma fl_3_4: "fl (3 / 4) = DFin (3 / 4)"
proof -
  have "fl (3 / 4) = DFin (of_int 6755399441055744 * (1 / 9007199254740992))"
  proof (rule fl_certificate [where e = "- 1"])
    show "binary_exponent \<bar>3 / 4\<bar> = - 1" by (simp add: eval_exponent)
    show "(2::rat) powi (- 1 - 52) = 1 / 9007199254740992" by (simp add: power_int_minus)
    show "round_even (3 / 4 / (1 / 9007199254740992)) = 6755399441055744"
      by (simp add: eval_round)
    show "\<bar>rat_of_int 6755399441055744 * (1 / 9007199254740992)\<bar> < overflow"
      by (simp add: overflow_def)
  qed simp_all
  then show ?thesis by simp
qed

lemma round_even_floor: "\<lfloor>y\<rfloor> \<le> round_even y"
  by (simp add: round_even_def Let_def)

text \<open>An integer from \<open>2^1024\<close> on rounds to \<open>Infinity\<close>.\<close>

lemma fl_beyond:
  assumes "2 ^ 1024 \<le> n"
  shows "fl (of_int n) = DInf False"
proof -
  define e where "e = nat (bitlen n - 1)"
  have p: "0 < n" using assms by (rule less_le_trans [rotated]) simp
  from bitlen_bounds [OF p] have lo: "2 ^ e \<le> n" and hi: "n < 2 ^ nat (bitlen n)"
    by (simp_all add: e_def)
  have "(2::int) ^ 1024 < 2 ^ nat (bitlen n)" using assms hi by linarith
  then have "1024 < nat (bitlen n)" by (rule power_less_imp_less_exp [rotated]) simp
  then have e: "1024 \<le> e" and b: "bitlen n - 1 = int e" by (simp_all add: e_def)
  have "1 \<le> n" using p by linarith
  then have o: "(1::rat) \<le> of_int n" by (metis of_int_1 of_int_le_iff)
  have a: "\<bar>of_int n :: rat\<bar> = of_int n" using p by simp
  have "binary_exponent (of_int n) = int e"
    using o by (simp only: binary_exponent_def if_True floor_of_int b)
  then have g: "ulp_exponent (of_int n) = int (e - 52)"
    using e by (simp only: ulp_exponent_def a)
  have u: "(2::rat) powi int (e - 52) = 2 ^ (e - 52)" by simp
  define m where "m = round_even (of_int n / 2 ^ (e - 52))"
  have r: "round_to (ulp_exponent (of_int n)) (of_int n) = of_int m * 2 ^ (e - 52)"
    by (simp only: round_to_def g u m_def)
  have s: "(2::rat) ^ 52 * 2 ^ (e - 52) = 2 ^ e"
    using e by (simp only: power_add [symmetric]) simp
  have "(2::rat) ^ e \<le> of_int n" using lo by (metis of_int_le_iff of_int_numeral of_int_power)
  then have "(2::rat) ^ 52 \<le> of_int n / 2 ^ (e - 52)"
    by (simp only: s [symmetric]) (simp add: field_simps)
  then have "2 ^ 52 \<le> \<lfloor>of_int n / 2 ^ (e - 52) :: rat\<rfloor>"
    by (simp add: le_floor_iff)
  with round_even_floor [of "of_int n / 2 ^ (e - 52)"] have "2 ^ 52 \<le> m"
    by (simp only: m_def)
  then have "(2::rat) ^ 52 \<le> of_int m" by (metis of_int_le_iff of_int_numeral of_int_power)
  then have "(2::rat) ^ 52 * 2 ^ (e - 52) \<le> of_int m * 2 ^ (e - 52)"
    by (rule mult_right_mono) simp
  then have "(2::rat) ^ e \<le> of_int m * 2 ^ (e - 52)" by (simp only: s)
  moreover have "(2::rat) ^ 1024 \<le> 2 ^ e" using e by (intro power_increasing) simp_all
  ultimately have big: "(2::rat) ^ 1024 \<le> of_int m * 2 ^ (e - 52)" by linarith
  have pos: "(0::rat) < 2 ^ 1024" by simp
  from big pos have nz: "of_int m * (2::rat) ^ (e - 52) \<noteq> 0" by linarith
  from big pos have ab: "overflow \<le> \<bar>of_int m * (2::rat) ^ (e - 52)\<bar>"
    by (simp only: overflow_def)
  have x: "(of_int n :: rat) \<noteq> 0" "\<not> (of_int n :: rat) < 0" using p by simp_all
  show ?thesis
    by (simp only: fl_def r Let_def x nz ab if_False if_True)
qed

lemma round_even_le: "round_even y \<le> \<lfloor>y\<rfloor> + 1"
  by (simp add: round_even_def Let_def)

lemma power_int_split: "(2::rat) ^ 52 * 2 powi (int e - 52) = 2 ^ e"
proof -
  have "(2::rat) powi 52 * 2 powi (int e - 52) = 2 powi (52 + (int e - 52))"
    by (rule power_int_add [symmetric]) simp
  then show ?thesis by simp
qed

text \<open>The rounding of a rational from 1 on: its exponent and its significand.\<close>

lemma fl_normal:
  assumes "1 \<le> x"
  shows "\<exists>e m. 2 ^ e \<le> x \<and> x < 2 ^ Suc e \<and> 2 ^ 52 \<le> m \<and> m \<le> 2 ^ 53 \<and>
           fl x = (if overflow \<le> of_int m * 2 powi (int e - 52) then DInf False
                   else DFin (of_int m * 2 powi (int e - 52)))"
proof -
  define n where "n = \<lfloor>x\<rfloor>"
  have p: "0 < n" using assms by (simp add: n_def)
  define e where "e = nat (bitlen n - 1)"
  have "1 \<le> bitlen n" using p by (simp add: bitlen_alt_def)
  then have b: "bitlen n - 1 = int e" and b': "nat (bitlen n) = Suc e"
    by (simp_all add: e_def)
  from bitlen_bounds [OF p] have lo: "2 ^ e \<le> n" and hi: "n < 2 ^ Suc e"
    by (simp_all add: e_def b')
  have "(2::rat) ^ e = of_int (2 ^ e)" by simp
  also have "\<dots> \<le> of_int n" using lo by (simp only: of_int_le_iff)
  also have "\<dots> \<le> x" by (simp add: n_def)
  finally have xlo: "2 ^ e \<le> x" .
  have "n + 1 \<le> 2 ^ Suc e" using hi by linarith
  then have "(of_int (n + 1) :: rat) \<le> of_int (2 ^ Suc e)" by (simp only: of_int_le_iff)
  also have "\<dots> = 2 ^ Suc e" by simp
  finally have "(of_int (n + 1) :: rat) \<le> 2 ^ Suc e" .
  moreover have "x < of_int (n + 1)" using floor_correct [of x] by (simp only: n_def)
  ultimately have xhi: "x < 2 ^ Suc e" by (rule less_le_trans [rotated])
  have a: "\<bar>x\<bar> = x" using assms by simp
  have be: "binary_exponent x = int e"
    using assms by (simp only: binary_exponent_def if_True n_def [symmetric] b)
  have g: "ulp_exponent x = int e - 52"
    by (simp only: ulp_exponent_def a be)
  define u where "u = (2::rat) powi (int e - 52)"
  have up: "0 < u" by (simp add: u_def)
  have s: "2 ^ 52 * u = 2 ^ e" by (simp only: u_def power_int_split)
  have s': "2 ^ 53 * u = 2 ^ Suc e" using s by simp
  define m where "m = round_even (x / u)"
  have r: "round_to (ulp_exponent x) x = of_int m * u"
    by (simp only: round_to_def g u_def m_def)
  have "2 ^ 52 * u \<le> x" using xlo by (simp only: s)
  then have "2 ^ 52 \<le> x / u" using up by (simp add: pos_le_divide_eq)
  then have "2 ^ 52 \<le> \<lfloor>x / u\<rfloor>" by (simp add: le_floor_iff)
  with round_even_floor [of "x / u"] have m_lo: "2 ^ 52 \<le> m" by (simp only: m_def)
  have "x < 2 ^ 53 * u" using xhi by (simp only: s')
  then have "x / u < 2 ^ 53" using up by (simp add: pos_divide_less_eq)
  then have "\<lfloor>x / u\<rfloor> < 2 ^ 53" by (simp add: floor_less_iff)
  with round_even_le [of "x / u"] have m_hi: "m \<le> 2 ^ 53" by (simp only: m_def)
  have "(0::rat) < of_int m" using m_lo by simp
  then have rp: "0 < of_int m * u" using up by simp
  then have ra: "\<bar>of_int m * u\<bar> = of_int m * u" by simp
  have x: "x \<noteq> 0" "\<not> x < 0" using assms by simp_all
  have nz: "of_int m * u \<noteq> 0" using rp by linarith
  have "fl x = (if overflow \<le> of_int m * u then DInf False else DFin (of_int m * u))"
    by (simp only: fl_def r Let_def x nz ra if_False)
  with xlo xhi m_lo m_hi show ?thesis
    unfolding u_def by blast
qed

lemma fl_at_least:
  assumes "2 ^ k \<le> x"
  shows "at_least (2 ^ k) (fl x)"
proof -
  have "(1::rat) \<le> 2 ^ k" by simp
  with assms have "1 \<le> x" by linarith
  from fl_normal [OF this] obtain e m where
    xhi: "x < 2 ^ Suc e" and m: "2 ^ 52 \<le> m"
    and f: "fl x = (if overflow \<le> of_int m * 2 powi (int e - 52) then DInf False
                   else DFin (of_int m * 2 powi (int e - 52)))"
    by blast
  have "(2::rat) ^ k < 2 ^ Suc e" using assms xhi by linarith
  then have "k < Suc e" by (rule power_less_imp_less_exp [rotated]) simp
  then have "(2::rat) ^ k \<le> 2 ^ e" by (intro power_increasing) simp_all
  moreover have "(2::rat) ^ 52 \<le> of_int m" using m by (metis of_int_le_iff of_int_numeral of_int_power)
  then have "(2::rat) ^ 52 * 2 powi (int e - 52) \<le> of_int m * 2 powi (int e - 52)"
    by (intro mult_right_mono) simp_all
  then have "(2::rat) ^ e \<le> of_int m * 2 powi (int e - 52)"
    by (simp only: power_int_split)
  ultimately have "(2::rat) ^ k \<le> of_int m * 2 powi (int e - 52)" by linarith
  then show ?thesis by (simp only: f) simp
qed

lemma round_to_dyadic:
  assumes "g \<le> int j"
  shows "round_to g (of_int m * 2 ^ j) = of_int m * 2 ^ j"
proof -
  define d where "d = nat (int j - g)"
  have j: "int j = g + int d" using assms by (simp add: d_def)
  have "(2::rat) powi (g + int d) = 2 powi g * 2 powi int d"
    by (rule power_int_add) simp
  then have q: "(2::rat) ^ j = 2 powi g * 2 ^ d"
    using j by (metis power_int_of_nat)
  have "(of_int m :: rat) * 2 ^ j / 2 powi g = of_int (m * 2 ^ d)" by (simp add: q)
  then have "round_even (of_int m * 2 ^ j / 2 powi g) = m * 2 ^ d"
    by (simp only: round_even_int)
  then show ?thesis by (simp only: round_to_def) (simp add: q)
qed

text \<open>A significand below \<open>2^53\<close> times a power of two is a double.\<close>

lemma fl_dyadic:
  assumes "m \<noteq> 0" and "\<bar>m\<bar> < 2 ^ 53" and "\<bar>of_int m * 2 ^ j :: rat\<bar> < overflow"
  shows "fl (of_int m * 2 ^ j) = DFin (of_int m * 2 ^ j)"
proof -
  define N where "N = \<bar>m\<bar> * 2 ^ j"
  have "0 < \<bar>m\<bar>" using assms(1) by simp
  then have p: "0 < N" by (simp add: N_def)
  have x: "\<bar>of_int m * 2 ^ j :: rat\<bar> = of_int N" by (simp add: N_def abs_mult)
  have "1 \<le> N" using p by linarith
  then have o: "(1::rat) \<le> of_int N" by (metis of_int_1 of_int_le_iff)
  from bitlen_bounds [OF p] have lo: "2 ^ nat (bitlen N - 1) \<le> N" by simp
  have "N < 2 ^ 53 * 2 ^ j" using assms(2) by (simp add: N_def)
  then have "N < 2 ^ (53 + j)" by (simp only: power_add)
  with lo have "(2::int) ^ nat (bitlen N - 1) < 2 ^ (53 + j)" by linarith
  then have "nat (bitlen N - 1) < 53 + j" by (rule power_less_imp_less_exp [rotated]) simp
  then have e: "bitlen N - 1 - 52 \<le> int j" by linarith
  have b1: "1 \<le> bitlen N" using p by (simp add: bitlen_alt_def)
  have "binary_exponent (of_int N) = bitlen N - 1"
    using o by (simp only: binary_exponent_def if_True floor_of_int)
  then have g: "ulp_exponent (of_int m * 2 ^ j) = bitlen N - 1 - 52"
    using b1 by (simp only: ulp_exponent_def x)
  have r: "round_to (ulp_exponent (of_int m * 2 ^ j)) (of_int m * 2 ^ j) = of_int m * 2 ^ j"
    by (simp only: g) (rule round_to_dyadic [OF e])
  have nz: "(of_int m :: rat) * 2 ^ j \<noteq> 0" using assms(1) by simp
  have no: "\<not> overflow \<le> \<bar>of_int m * 2 ^ j :: rat\<bar>" using assms(3) by simp
  show ?thesis
    by (simp only: fl_def r Let_def nz no if_False)
qed

text \<open>The negation of what an integer rounds to is a double again.\<close>

lemma fl_negated:
  assumes "0 < n" and "fl (of_int n) = DFin l"
  shows "fl (- l) = DFin (- l)"
proof (cases "n < 2 ^ 53")
  case True
  with assms(1) fl_int [of n] have "fl (of_int n) = DFin (of_int n)" by simp
  with assms(2) have l: "l = of_int n" by simp
  from True assms(1) fl_int [of "- n"] show ?thesis by (simp add: l)
next
  case False
  have "1 \<le> n" using assms(1) by linarith
  then have "(1::rat) \<le> of_int n" by (metis of_int_1 of_int_le_iff)
  from fl_normal [OF this] obtain e m where
    xhi: "(of_int n :: rat) < 2 ^ Suc e" and m_lo: "2 ^ 52 \<le> m" and m_hi: "m \<le> 2 ^ 53"
    and f: "fl (of_int n) = (if overflow \<le> of_int m * 2 powi (int e - 52) then DInf False
                   else DFin (of_int m * 2 powi (int e - 52)))"
    by blast
  from f assms(2) have l: "l = of_int m * 2 powi (int e - 52)"
    and fin: "\<not> overflow \<le> of_int m * 2 powi (int e - 52)"
    by (simp_all split: if_splits)
  have "(2::int) ^ 53 \<le> n" using False by simp
  then have "(of_int (2 ^ 53) :: rat) \<le> of_int n" by (simp only: of_int_le_iff)
  then have "(2::rat) ^ 53 < 2 ^ Suc e" using xhi by simp
  then have "53 < Suc e" by (rule power_less_imp_less_exp [rotated]) simp
  then have e: "int e - 52 = int (e - 52)" by simp
  have l': "l = of_int m * 2 ^ (e - 52)" by (simp only: l e power_int_of_nat)
  have fin': "of_int m * (2::rat) ^ (e - 52) < overflow"
    using fin by (simp only: e power_int_of_nat)
  have mp: "0 < m" using m_lo by (rule less_le_trans [rotated]) simp
  show ?thesis
  proof (cases "m = 2 ^ 53")
    case False
    with m_hi have "m < 2 ^ 53" by simp
    with mp have 1: "- m \<noteq> 0" "\<bar>- m\<bar> < 2 ^ 53" by simp_all
    have "\<bar>of_int (- m) * 2 ^ (e - 52) :: rat\<bar> = of_int m * 2 ^ (e - 52)"
      using mp by (simp add: abs_mult)
    with fin' have 2: "\<bar>of_int (- m) * 2 ^ (e - 52) :: rat\<bar> < overflow" by simp
    from fl_dyadic [OF 1 2] show ?thesis by (simp add: l')
  next
    case True
    have 1: "- (2 ^ 52) \<noteq> (0::int)" "\<bar>- (2 ^ 52)\<bar> < (2::int) ^ 53" by simp_all
    have h: "of_int m * (2::rat) ^ (e - 52) = 2 ^ 52 * 2 ^ Suc (e - 52)"
      by (simp add: True)
    have "\<bar>of_int (- (2 ^ 52)) * 2 ^ Suc (e - 52) :: rat\<bar> = 2 ^ 52 * 2 ^ Suc (e - 52)"
      by (simp add: abs_mult)
    with fin' h have 2: "\<bar>of_int (- (2 ^ 52)) * 2 ^ Suc (e - 52) :: rat\<bar> < overflow" by simp
    from fl_dyadic [OF 1 2] show ?thesis by (simp add: l' h)
  qed
qed

section \<open>The percentage of the fitness evaluator\<close>

lemma fitnessLoop64_fold:
  "fitnessLoop64 tn fd rs (t, n) =
     (foldl d_add t (map (requirementProgress64 tn fd) rs),
      n + length (filter (\<lambda>r. d_ge (requirementProgress64 tn fd r) (DFin 1)) rs))"
  by (induction rs arbitrary: t n) (simp_all add: Let_def)

lemma spec_ratio64_progress: "spec_ratio64 tn fd r = requirementProgress64 tn fd r"
  by (simp add: spec_ratio64_def spec_metric64_def requirementProgress64_def)

lemma d_min_one:
  assumes "d_ge (d_min x (DFin 1)) (DFin 1)"
  shows "d_min x (DFin 1) = DFin 1"
  using assms by (cases x) (auto simp: d_ge_def split: if_splits)

lemma requirementProgress64_one:
  assumes "d_ge (requirementProgress64 tn fd r) (DFin 1)"
  shows "requirementProgress64 tn fd r = DFin 1"
proof -
  have z: "\<not> d_ge (DZero False) (DFin 1)" by (simp add: d_ge_def)
  from assms z show ?thesis
    by (auto simp: requirementProgress64_def split: if_splits intro: d_min_one)
qed

lemma sum_of_ones:
  assumes "\<forall>x \<in> set xs. x = DFin 1" and "k + length xs < 2 ^ 53" and "xs \<noteq> []"
  shows "foldl d_add (d_int (int k)) xs = DFin (of_nat (k + length xs))"
  using assms
proof (induction xs arbitrary: k)
  case Nil
  then show ?case by simp
next
  case (Cons x xs)
  have x: "x = DFin 1" using Cons.prems(1) by simp
  have b: "\<bar>int (Suc k)\<bar> < 2 ^ 53" using Cons.prems(2) by simp
  have "d_add (d_int (int k)) (DFin 1) = DFin (of_int (int (Suc k)))"
  proof (cases "k = 0")
    case True
    then show ?thesis by (simp add: d_int_def)
  next
    case False
    have "\<bar>int k\<bar> < 2 ^ 53" using Cons.prems(2) by simp
    with False fl_int [of "int k"] have "d_int (int k) = DFin (of_int (int k))"
      by (simp add: d_int_def)
    moreover have "(of_int (int k) :: rat) + 1 = of_int (int (Suc k))" by simp
    moreover have "(of_int (int (Suc k)) :: rat) \<noteq> 0" by (simp only: of_int_eq_0_iff)
    ultimately show ?thesis using fl_int [OF _ b] by (simp only: d_add.simps; simp)
  qed
  also have "\<dots> = d_int (int (Suc k))" using fl_int [OF _ b] by (simp add: d_int_def)
  finally have step: "d_add (d_int (int k)) x = d_int (int (Suc k))" by (simp only: x)
  show ?case
  proof (cases "xs = []")
    case True
    with step fl_int [OF _ b] show ?thesis by (simp add: d_int_def)
  next
    case False
    from Cons.IH [of "Suc k"] Cons.prems False step show ?thesis by simp
  qed
qed

text \<open>
  The flag and the percentage in doubles: when every requirement is complete, the
  percentage is 100.
\<close>

lemma fitness_completed_percentage64:
  assumes "reqs \<noteq> []" and "length reqs < 2 ^ 53"
    and "completed64 (calculateFitnessProgress64 tn reqs fd)"
  shows "percentage64 (calculateFitnessProgress64 tn reqs fd) = DFin 100"
proof -
  let ?xs = "map (requirementProgress64 tn fd) reqs"
  from assms(3) have "list_all (\<lambda>r. d_ge (requirementProgress64 tn fd r) (DFin 1)) reqs"
    by (simp add: calculateFitnessProgress64_def fitnessLoop64_fold filter_all_length)
  then have ones: "\<forall>x \<in> set ?xs. x = DFin 1"
    by (auto simp: list_all_iff requirementProgress64_one)
  have n: "int (length reqs) \<noteq> 0" "\<bar>int (length reqs)\<bar> < 2 ^ 53" using assms(1,2) by simp_all
  have len: "d_int (int (length reqs)) = DFin (of_nat (length reqs))"
    using fl_int [OF n] n(1) by (simp add: d_int_def)
  from sum_of_ones [of ?xs 0] ones assms(1,2)
  have total: "foldl d_add (DZero False) ?xs = DFin (of_nat (length reqs))"
    by (simp add: d_int_def)
  have q: "(of_nat (length reqs) :: rat) / of_nat (length reqs) = 1" using assms(1) by simp
  have f: "fl 1 = DFin 1" "fl 100 = DFin 100" using fl_int [of 1] fl_int [of 100] by simp_all
  have r: "d_round (DFin 100) = DFin 100" by (simp add: Let_def eval_floor)
  have d: "d_div (DFin (of_nat (length reqs))) (DFin (of_nat (length reqs))) = DFin 1"
    by (simp only: d_div.simps q f)
  have m: "d_mul (DFin 1) (DFin 100) = DFin 100" by (simp add: f)
  show ?thesis
    by (simp only: calculateFitnessProgress64_def fitnessLoop64_fold Let_def prod.case
        total len d m r progress_result64.select_convs)
qed

text \<open>
  Claim C5, as the specification states it with the quotient, the average and the
  product of exact numbers, fails: the evaluator computes in doubles. For the one
  requirement step-count 1000 and a snapshot of 145 steps the quotient \<open>145 / 1000\<close> is
  the double just below 0.145, its product with 100 is 14.499999999999998, and the
  evaluator returns the percentage 14, where \<open>round(0.145 * 100)\<close> is 15.
\<close>

theorem fitness_progress_counterexample:
  "percentage64
     (calculateFitnessProgress64 (\<lambda>s. DNaN)
        [\<lparr>req_type64 = ''step-count'', target64 = Num64 (DFin 1000)\<rparr>]
        (demo_snapshot64 (DFin 145))) = DFin 14 \<and>
   percentage
     (spec_fitness_progress (\<lambda>s. NaN)
        \<lparr>steps = Fin 145, exerciseMinutes = Fin 0, distance = Fin 5, calories = Fin 0\<rparr>
        [\<lparr>req_type = ''step-count'', target = VNum (Fin 1000)\<rparr>]) = Fin 15"
proof
  show "percentage64
     (calculateFitnessProgress64 (\<lambda>s. DNaN)
        [\<lparr>req_type64 = ''step-count'', target64 = Num64 (DFin 1000)\<rparr>]
        (demo_snapshot64 (DFin 145))) = DFin 14"
    by (simp add: calculateFitnessProgress64_def demo_snapshot64_def requirementProgress64_def
        d_ge_def d_int_def fl_small_ints fl_29_200 fl_again fl_times_100 Let_def eval_floor)
  show "percentage
     (spec_fitness_progress (\<lambda>s. NaN)
        \<lparr>steps = Fin 145, exerciseMinutes = Fin 0, distance = Fin 5, calories = Fin 0\<rparr>
        [\<lparr>req_type = ''step-count'', target = VNum (Fin 1000)\<rparr>]) = Fin 15"
    by (simp add: spec_fitness_progress_def average_def spec_ratio_def spec_metric_def
        js_min_def floor_eq_iff)
qed

text \<open>
  Claim C5, amended. The fitness-based evaluator returns what the formula of the
  specification gives when each operation is the one of doubles, rounded to the
  nearest double: per requirement the ratio \<open>min(observed / target, 1)\<close> of the metric
  its type selects, \<open>percentage = Math.round(average of the ratios * 100)\<close> with the
  average the sum from the left divided by the count, and \<open>completed\<close> exactly when
  every ratio reaches 1. For the requirements step-count 10000 and distance 5 and the
  snapshot with 5000 steps and distance 5 it returns 75 and \<open>false\<close>.
\<close>

theorem fitness_progress_binary64:
  "calculateFitnessProgress64 tn reqs fd = spec_fitness_progress64 tn fd reqs \<and>
   calculateFitnessProgress64 tn demo_requirements64 (demo_snapshot64 (DFin 5000))
     = \<lparr>percentage64 = DFin 75, completed64 = False\<rparr>"
proof
  show "calculateFitnessProgress64 tn reqs fd = spec_fitness_progress64 tn fd reqs"
    by (simp add: calculateFitnessProgress64_def spec_fitness_progress64_def fitnessLoop64_fold
        average64_def filter_all_length spec_ratio64_progress [abs_def] Let_def)
  show "calculateFitnessProgress64 tn demo_requirements64 (demo_snapshot64 (DFin 5000))
     = \<lparr>percentage64 = DFin 75, completed64 = False\<rparr>"
    by (simp add: calculateFitnessProgress64_def demo_requirements64_def demo_snapshot64_def
        requirementProgress64_def d_ge_def d_int_def fl_small_ints fl_1_2 fl_3_2 fl_3_4
        Let_def eval_floor)
qed

section \<open>Requirements with a numeric target\<close>

lemma requirementMet_strings:
  "string_contents subs \<Longrightarrow>
   requirementMet r subs met \<longleftrightarrow>
     met \<or> (req_type r \<in> set [''photo'', ''video'', ''text''] \<and>
            list_ex (\<lambda>s. sub_type s = req_type r) subs)"
proof (induction subs arbitrary: met)
  case Nil
  show ?case by simp
next
  case (Cons s ss)
  from Cons.prems obtain c where c: "content s = VStr c" "c \<noteq> []"
    and ss: "string_contents ss"
    by (auto simp: string_contents_def split: jsval.splits)
  show ?case
    using Cons.IH [OF ss] c by auto
qed

lemma processSubmission_string:
  "(case content s of VStr c \<Rightarrow> c \<noteq> [] | VNum _ \<Rightarrow> False) \<Longrightarrow>
   (case content (processSubmission now up k s) of VStr c \<Rightarrow> c \<noteq> [] | VNum _ \<Rightarrow> False)"
  by (simp add: processSubmission_def Let_def)

lemma processSubmission_type: "sub_type (processSubmission now up k s) = sub_type s"
  by (simp add: processSubmission_def Let_def)

lemma processSubmissions_strings:
  "schema_submitTask subs \<Longrightarrow> string_contents (processSubmissions now up subs)"
  by (auto simp: schema_submitTask_def string_contents_def processSubmissions_def
      list_all_iff in_set_enumerate_eq intro!: processSubmission_string)

lemma processSubmissions_types:
  "map sub_type (processSubmissions now up subs) = map sub_type subs"
proof -
  have "map sub_type (processSubmissions now up subs)
          = map sub_type (map snd (enumerate 0 subs))"
    by (simp add: processSubmissions_def processSubmission_type split_def comp_def
        del: map_snd_enumerate)
  then show ?thesis by simp
qed

lemma list_ex_field: "list_ex (\<lambda>s. f s = v) xs \<longleftrightarrow> v \<in> set (map f xs)"
  by (induction xs) auto

text \<open>
  Claim C4, as the specification states it, fails: a photo requirement with target 5 is
  met by a photo whose content is no number, and a text requirement with target 5 is met
  by the text "3".
\<close>

theorem numeric_target_counterexample:
  "is_number (target \<lparr>req_type = ''photo'', target = VNum (Fin 5)\<rparr>) \<and>
   requirementMet \<lparr>req_type = ''photo'', target = VNum (Fin 5)\<rparr>
     [\<lparr>sub_type = ''photo'', content = VStr ''p.jpg'', sub_timestamp = 0\<rparr>] False \<and>
   \<not> spec_numeric_satisfied \<lparr>req_type = ''photo'', target = VNum (Fin 5)\<rparr>
     [\<lparr>sub_type = ''photo'', content = VStr ''p.jpg'', sub_timestamp = 0\<rparr>] \<and>
   is_number (target \<lparr>req_type = ''text'', target = VNum (Fin 5)\<rparr>) \<and>
   requirementMet \<lparr>req_type = ''text'', target = VNum (Fin 5)\<rparr>
     [\<lparr>sub_type = ''text'', content = VStr ''3'', sub_timestamp = 0\<rparr>] False \<and>
   \<not> spec_numeric_satisfied \<lparr>req_type = ''text'', target = VNum (Fin 5)\<rparr>
     [\<lparr>sub_type = ''text'', content = VStr ''3'', sub_timestamp = 0\<rparr>]"
  by (simp add: spec_numeric_satisfied_def is_digit_def decimal_value_def)

text \<open>
  Claim C4, amended. On a batch that passed the request schema (every content a
  non-empty string) and was processed by the route, a requirement whose target is
  numeric is met exactly when its type is photo, video or text and the batch holds a
  submission of that type. The content is not parsed as a number.
\<close>

theorem numeric_target_requirement:
  assumes "is_number (target r)" and "schema_submitTask subs"
  shows "requirementMet r (processSubmissions now up subs) False \<longleftrightarrow>
           req_type r \<in> set [''photo'', ''video'', ''text''] \<and>
           list_ex (\<lambda>s. sub_type s = req_type r) subs"
  using requirementMet_strings [OF processSubmissions_strings [OF assms(2)], of r now up False]
  by (simp only: list_ex_field processSubmissions_types) simp

theorem numeric_target_requirement_witness:
  "is_number (target \<lparr>req_type = ''text'', target = VNum (Fin 5)\<rparr>) \<and>
   schema_submitTask [\<lparr>sub_type = ''text'', content = VStr ''3'', sub_timestamp = 0\<rparr>] \<and>
   requirementMet \<lparr>req_type = ''text'', target = VNum (Fin 5)\<rparr>
     (processSubmissions 9 []
        [\<lparr>sub_type = ''text'', content = VStr ''3'', sub_timestamp = 0\<rparr>]) False"
proof -
  let ?r = "\<lparr>req_type = ''text'', target = VNum (Fin 5)\<rparr>"
  let ?subs = "[\<lparr>sub_type = ''text'', content = VStr ''3'', sub_timestamp = 0\<rparr>]"
  have n: "is_number (target ?r)" by simp
  have v: "schema_submitTask ?subs" by (simp add: schema_submitTask_def)
  show ?thesis
    using n v numeric_target_requirement [OF n v, of 9 "[]"] by simp
qed

section \<open>The submission request\<close>

lemma calculateTaskProgress_task:
  "task b1 = (task b)\<lparr>progress := p\<rparr> \<Longrightarrow>
   calculateTaskProgress b1 subs = calculateTaskProgress b subs"
  by (simp add: calculateTaskProgress_def)

lemma submit_status_status:
  "status (submit_status now c b) =
     (if c then (if verificationMethod (task b) = ''automatic'' then ''completed''
                 else ''awaiting-verification'')
      else if status b = ''received'' then ''in-progress'' else status b)"
  by (simp add: submit_status_def Let_def)

lemma submit_status_completedAt:
  "status b \<noteq> ''completed'' \<Longrightarrow> status (submit_status now c b) = ''completed'' \<Longrightarrow>
   completedAt (submit_status now c b) = Some now"
  by (auto simp: submit_status_def Let_def split: if_splits)

lemma submit_status_task: "task (submit_status now c b) = task b"
  by (simp add: submit_status_def Let_def)

lemma submit_task_accepted:
  assumes "submit_task d user i subs uploads ai now = (Inr b', d')"
  shows "\<exists>b up. findOne_recipient d i user = Some b \<and> uploads = Some up \<and>
           status b \<in> set [''received'', ''in-progress'', ''awaiting-verification''] \<and>
           d' = d(i \<mapsto> b') \<and>
           completed (progress (task b'))
             = completed (calculateTaskProgress b (processSubmissions now up subs)) \<and>
           status b' =
             (if completed (progress (task b'))
              then (if verificationMethod (task b) = ''automatic'' then ''completed''
                    else ''awaiting-verification'')
              else if status b = ''received'' then ''in-progress'' else status b) \<and>
           (status b' = ''completed'' \<longrightarrow> completedAt b' = Some now)"
proof -
  from assms obtain b where b: "findOne_recipient d i user = Some b"
    by (auto simp: submit_task_def split: if_splits option.splits)
  from assms b obtain up where up: "uploads = Some up"
    by (auto simp: submit_task_def split: if_splits option.splits)
  from assms b have st: "status b \<in> set [''received'', ''in-progress'', ''awaiting-verification'']"
    by (auto simp: submit_task_def split: if_splits option.splits)
  then have nc: "status b \<noteq> ''completed''" by auto
  let ?ps = "processSubmissions now up subs"
  let ?b1 = "b\<lparr>task := (task b)\<lparr>progress := (progress (task b))
                \<lparr>submissions := submissions (progress (task b)) @ ?ps\<rparr>\<rparr>\<rparr>"
  let ?pr = "calculateTaskProgress b ?ps"
  have pr: "calculateTaskProgress ?b1 ?ps = ?pr"
    by (rule calculateTaskProgress_task) simp
  let ?b2 = "?b1\<lparr>task := (task ?b1)\<lparr>progress := (progress (task ?b1))
                \<lparr>percentage := percentage ?pr, completed := completed ?pr,
                 verificationStatus := verificationStatus ?pr, lastUpdated := now\<rparr>\<rparr>\<rparr>"
  let ?b3 = "submit_status now (completed ?pr) ?b2"
  from assms b up st have res: "b' = addChatMessage now ''badger'' ai ?b3" "d' = d(i \<mapsto> b')"
    by (auto simp: submit_task_def pr Let_def split: if_splits)
  have s2: "status ?b2 = status b" "verificationMethod (task ?b2) = verificationMethod (task b)"
    by simp_all
  have "status b' = status ?b3" "completedAt b' = completedAt ?b3" "task b' = task ?b3"
    by (simp_all add: res addChatMessage_def)
  moreover have "completed (progress (task ?b3)) = completed ?pr"
    by (simp add: submit_status_task)
  moreover note submit_status_status [of now "completed ?pr" ?b2]
    submit_status_completedAt [of ?b2 now "completed ?pr"]
  ultimately show ?thesis
    using b up st res(2) nc s2 by (intro exI [of _ b] exI [of _ up]) (simp only:, simp)
qed

text \<open>
  Claim C10. A submission request that is answered with success found the delivery in
  status received, in-progress or awaiting-verification, and stored this status: when
  the recomputed progress is complete, \<open>completed\<close> (with the completion time) if
  the verification method is automatic and \<open>awaiting-verification\<close> otherwise; when
  it is not complete, \<open>in-progress\<close> if the status was \<open>received\<close>, and the status as
  it was in every other case. A well-formed request on a delivery in any other status
  is refused and nothing is stored.
\<close>

theorem submission_status_update:
  "(submit_task d user i subs uploads ai now = (Inr b', d') \<longrightarrow>
      (\<exists>b up. findOne_recipient d i user = Some b \<and> uploads = Some up \<and>
           status b \<in> set [''received'', ''in-progress'', ''awaiting-verification''] \<and>
           d' = d(i \<mapsto> b') \<and>
           completed (progress (task b'))
             = completed (calculateTaskProgress b (processSubmissions now up subs)) \<and>
           status b' =
             (if completed (progress (task b'))
              then (if verificationMethod (task b) = ''automatic'' then ''completed''
                    else ''awaiting-verification'')
              else if status b = ''received'' then ''in-progress'' else status b) \<and>
           (status b' = ''completed'' \<longrightarrow> completedAt b' = Some now))) \<and>
   (schema_submitTask subs \<and> findOne_recipient d i user = Some b0 \<and>
    status b0 \<notin> set [''received'', ''in-progress'', ''awaiting-verification''] \<longrightarrow>
      submit_task d user i subs uploads ai now = (Inl CannotSubmit, d))"
proof (intro conjI impI)
  assume "submit_task d user i subs uploads ai now = (Inr b', d')"
  then show "\<exists>b up. findOne_recipient d i user = Some b \<and> uploads = Some up \<and>
           status b \<in> set [''received'', ''in-progress'', ''awaiting-verification''] \<and>
           d' = d(i \<mapsto> b') \<and>
           completed (progress (task b'))
             = completed (calculateTaskProgress b (processSubmissions now up subs)) \<and>
           status b' =
             (if completed (progress (task b'))
              then (if verificationMethod (task b) = ''automatic'' then ''completed''
                    else ''awaiting-verification'')
              else if status b = ''received'' then ''in-progress'' else status b) \<and>
           (status b' = ''completed'' \<longrightarrow> completedAt b' = Some now)"
    by (rule submit_task_accepted)
next
  assume "schema_submitTask subs \<and> findOne_recipient d i user = Some b0 \<and>
    status b0 \<notin> set [''received'', ''in-progress'', ''awaiting-verification'']"
  then show "submit_task d user i subs uploads ai now = (Inl CannotSubmit, d)"
    by (simp add: submit_task_def)
qed

theorem submission_status_update_witness:
  "(\<exists>b'. submit_task (demo_db ''received'') ''bob'' ''b1'' demo_report (Some []) ''Well done'' 9
           = (Inr b', (demo_db ''received'')(''b1'' \<mapsto> b')) \<and>
         completed (progress (task b')) \<and> status b' = ''awaiting-verification'') \<and>
   schema_submitTask demo_report \<and>
   findOne_recipient (demo_db ''expired'') ''b1'' ''bob''
     = Some ((demo_badger ''expired'')\<lparr>task := demo_report_task\<rparr>) \<and>
   submit_task (demo_db ''expired'') ''bob'' ''b1'' demo_report (Some []) ''Well done'' 9
     = (Inl CannotSubmit, demo_db ''expired'')"
proof -
  let ?d = "demo_db ''received''"
  let ?b = "(demo_badger ''received'')\<lparr>task := demo_report_task\<rparr>"
  have v: "schema_submitTask demo_report"
    by (simp add: schema_submitTask_def demo_report_def)
  have f: "findOne_recipient ?d ''b1'' ''bob'' = Some ?b"
    by (simp add: findOne_recipient_def demo_db_def demo_badger_def)
  have c: "completed (calculateTaskProgress ?b (processSubmissions 9 [] demo_report))"
    by (simp add: calculateTaskProgress_def processSubmissions_def processSubmission_def
        demo_badger_def demo_report_task_def demo_report_def js_eq_def Let_def floor_eq_iff)
  have p: "percentage_valid
             (percentage (calculateTaskProgress ?b (processSubmissions 9 [] demo_report)))"
    by (simp add: calculateTaskProgress_def processSubmissions_def processSubmission_def
        demo_badger_def demo_report_task_def demo_report_def js_eq_def Let_def floor_eq_iff)
  have "\<exists>b' d'. submit_task ?d ''bob'' ''b1'' demo_report (Some []) ''Well done'' 9 = (Inr b', d')"
    using v f p
    by (simp add: submit_task_def chat_content_valid_def Let_def demo_badger_def
        calculateTaskProgress_task [where b = ?b])
  then obtain b' d' where
    r: "submit_task ?d ''bob'' ''b1'' demo_report (Some []) ''Well done'' 9 = (Inr b', d')"
    by blast
  from submission_status_update [of ?d "''bob''" "''b1''" demo_report "Some []" "''Well done''" 9
      b' d'] r f c
  have "d' = ?d(''b1'' \<mapsto> b')" "completed (progress (task b'))"
    "status b' = ''awaiting-verification''"
    by (simp_all add: demo_badger_def demo_report_task_def)
  with r have a: "\<exists>b'. submit_task ?d ''bob'' ''b1'' demo_report (Some []) ''Well done'' 9
           = (Inr b', ?d(''b1'' \<mapsto> b')) \<and>
         completed (progress (task b')) \<and> status b' = ''awaiting-verification''"
    by auto
  have f2: "findOne_recipient (demo_db ''expired'') ''b1'' ''bob''
     = Some ((demo_badger ''expired'')\<lparr>task := demo_report_task\<rparr>)"
    by (simp add: findOne_recipient_def demo_db_def demo_badger_def)
  have s2: "status ((demo_badger ''expired'')\<lparr>task := demo_report_task\<rparr>)
     \<notin> set [''received'', ''in-progress'', ''awaiting-verification'']"
    by (simp add: demo_badger_def)
  from submission_status_update [of "demo_db ''expired''" "''bob''" "''b1''" demo_report
      "Some []" "''Well done''" 9 b' d' "(demo_badger ''expired'')\<lparr>task := demo_report_task\<rparr>"]
    v f2 s2
  have b: "submit_task (demo_db ''expired'') ''bob'' ''b1'' demo_report (Some []) ''Well done'' 9
     = (Inl CannotSubmit, demo_db ''expired'')"
    by blast
  show ?thesis using a v f2 b by blast
qed

section \<open>Terminal statuses\<close>

lemma terminal_not_allowed:
  "st \<in> set [''completed'', ''cancelled'', ''expired''] \<Longrightarrow> \<not> transition_allowed st s"
  by (auto simp: transition_allowed_def allowedTransitions_def)

lemma patch_status_terminal:
  assumes "d i = Some b" and "status b \<in> set [''completed'', ''cancelled'', ''expired'']"
  shows "snd (patch_status d user j s now) i = Some b"
proof (cases "j = i")
  case True
  with assms terminal_not_allowed [OF assms(2)] show ?thesis
    by (simp add: patch_status_def findOne_party_def)
next
  case False
  with assms show ?thesis
    by (simp add: patch_status_def Let_def split: option.splits)
qed

lemma submit_task_terminal:
  assumes "d i = Some b" and "status b \<in> set [''completed'', ''cancelled'', ''expired'']"
  shows "snd (submit_task d user j subs uploads ai now) i = Some b"
proof (cases "j = i")
  case True
  with assms show ?thesis
    by (auto simp: submit_task_def findOne_recipient_def)
next
  case False
  with assms show ?thesis
    by (simp add: submit_task_def Let_def split: option.splits)
qed

lemma get_badger_terminal:
  assumes "d i = Some b" and "status b \<in> set [''completed'', ''cancelled'', ''expired'']"
  shows "snd (get_badger d user j) i = Some b"
proof (cases "j = i")
  case True
  with assms show ?thesis
    by (auto simp: get_badger_def findOne_party_def)
next
  case False
  with assms show ?thesis
    by (simp add: get_badger_def Let_def split: option.splits)
qed

lemma sweeps_terminal:
  assumes "d i = Some b" and "status b \<in> set [''completed'', ''cancelled'', ''expired'']"
  shows "checkDeadlines now d i = Some b" and "cleanupExpiredBadgers now d i = Some b"
  using assms by (auto simp: checkDeadlines_def cleanupExpiredBadgers_def updateMany_def)

lemma cancel_badger_status:
  assumes "d i = Some b"
  shows "map_option status (snd (cancel_badger d user j) i) =
           Some (if j = i \<and> senderId b = user \<and> status b \<noteq> ''completed''
                 then ''cancelled'' else status b)"
proof (cases "j = i")
  case True
  with assms show ?thesis
    by (simp add: cancel_badger_def findOne_sender_def)
next
  case False
  with assms show ?thesis
    by (simp add: cancel_badger_def split: option.splits)
qed

lemma cancel_badger_completed:
  assumes "d i = Some b" and "status b = ''completed''"
  shows "snd (cancel_badger d user j) i = Some b"
proof (cases "j = i")
  case True
  with assms show ?thesis
    by (simp add: cancel_badger_def findOne_sender_def)
next
  case False
  with assms show ?thesis
    by (simp add: cancel_badger_def split: option.splits)
qed

lemma sync_fitness_completed:
  assumes "d i = Some b" and "status b = ''completed''"
  shows "map_option status (snd (sync_fitness tn d user j synced now) i) = Some ''completed''"
proof (cases "j = i")
  case True
  with assms show ?thesis
    by (simp add: sync_fitness_def findOne_recipient_def Let_def split: option.splits)
next
  case False
  with assms show ?thesis
    by (simp add: sync_fitness_def Let_def split: option.splits)
qed

text \<open>
  Claim C3, as the specification states it, fails: the cancel request of the sender
  turns an expired delivery into a cancelled one.
\<close>

theorem terminal_status_counterexample:
  "status (demo_badger ''expired'') \<in> set [''completed'', ''cancelled'', ''expired''] \<and>
   map_option status
     (snd (cancel_badger [''b1'' \<mapsto> demo_badger ''expired''] ''alice'' ''b1'') ''b1'')
     = Some ''cancelled''"
  by (simp add: cancel_badger_def findOne_sender_def demo_badger_def)

text \<open>
  The fitness sync checks no status either: it completes a cancelled delivery whose
  requirements the snapshot meets.
\<close>

lemma sync_fitness_on_cancelled:
  "map_option status
     (snd (sync_fitness tn [''b1'' \<mapsto> demo_badger ''cancelled''] ''bob'' ''b1''
             (Some demo_snapshot_done) 9) ''b1'')
     = Some ''completed''"
  by (simp add: sync_fitness_def findOne_recipient_def demo_badger_def demo_task_def
      demo_snapshot_done_def calculateFitnessProgress_def requirementProgress_def js_min_def
      Let_def floor_eq_iff)

text \<open>
  Claim C3, amended. A delivery in status completed, cancelled or expired is left as it
  is by every transition request, submission, first view and scheduler sweep. A
  completed delivery also keeps its status under a cancel request and a fitness sync.
  On a cancelled or expired delivery the cancel request of its sender stores
  \<open>cancelled\<close>; any other cancel request leaves the status.
\<close>

theorem terminal_status_kept:
  assumes "d i = Some b" and "status b \<in> set [''completed'', ''cancelled'', ''expired'']"
  shows "snd (patch_status d user j s now) i = Some b \<and>
         snd (submit_task d user j subs uploads ai now) i = Some b \<and>
         snd (get_badger d user j) i = Some b \<and>
         checkDeadlines now d i = Some b \<and>
         cleanupExpiredBadgers now d i = Some b \<and>
         (status b = ''completed'' \<longrightarrow>
            snd (cancel_badger d user j) i = Some b \<and>
            map_option status (snd (sync_fitness tn d user j synced now) i)
              = Some ''completed'') \<and>
         (status b \<noteq> ''completed'' \<longrightarrow>
            map_option status (snd (cancel_badger d user j) i)
              = Some (if j = i \<and> senderId b = user then ''cancelled'' else status b))"
proof (intro conjI impI)
  show "snd (patch_status d user j s now) i = Some b"
    by (rule patch_status_terminal [where d = d and i = i, OF assms])
  show "snd (submit_task d user j subs uploads ai now) i = Some b"
    by (rule submit_task_terminal [where d = d and i = i, OF assms])
  show "snd (get_badger d user j) i = Some b"
    by (rule get_badger_terminal [where d = d and i = i, OF assms])
  show "checkDeadlines now d i = Some b"
    by (rule sweeps_terminal(1) [where d = d and i = i, OF assms])
  show "cleanupExpiredBadgers now d i = Some b"
    by (rule sweeps_terminal(2) [where d = d and i = i, OF assms])
next
  assume c: "status b = ''completed''"
  show "snd (cancel_badger d user j) i = Some b"
    by (rule cancel_badger_completed [where d = d and i = i, OF assms(1) c])
  show "map_option status (snd (sync_fitness tn d user j synced now) i) = Some ''completed''"
    by (rule sync_fitness_completed [where d = d and i = i, OF assms(1) c])
next
  assume c: "status b \<noteq> ''completed''"
  have e: "map_option status (snd (cancel_badger d user j) i) =
           Some (if j = i \<and> senderId b = user \<and> status b \<noteq> ''completed''
                 then ''cancelled'' else status b)"
    by (rule cancel_badger_status [where d = d and i = i, OF assms(1)])
  show "map_option status (snd (cancel_badger d user j) i)
          = Some (if j = i \<and> senderId b = user then ''cancelled'' else status b)"
    using c by (simp only: e) simp
qed

theorem terminal_status_kept_witness:
  "[''b1'' \<mapsto> demo_badger ''expired''] ''b1'' = Some (demo_badger ''expired'') \<and>
   status (demo_badger ''expired'') \<in> set [''completed'', ''cancelled'', ''expired''] \<and>
   snd (patch_status [''b1'' \<mapsto> demo_badger ''expired''] ''alice'' ''b1'' ''received'' 9) ''b1''
     = Some (demo_badger ''expired'') \<and>
   cleanupExpiredBadgers 9 [''b1'' \<mapsto> demo_badger ''expired''] ''b1''
     = Some (demo_badger ''expired'') \<and>
   map_option status
     (snd (cancel_badger [''b1'' \<mapsto> demo_badger ''expired''] ''alice'' ''b1'') ''b1'')
     = Some ''cancelled'' \<and>
   snd (cancel_badger [''b1'' \<mapsto> demo_badger ''completed''] ''alice'' ''b1'') ''b1''
     = Some (demo_badger ''completed'')"
proof -
  have a: "[''b1'' \<mapsto> demo_badger st] ''b1'' = Some (demo_badger st)" for st by simp
  have e: "status (demo_badger ''expired'') \<in> set [''completed'', ''cancelled'', ''expired'']"
    by (simp add: demo_badger_def)
  have c: "status (demo_badger ''completed'') \<in> set [''completed'', ''cancelled'', ''expired'']"
    by (simp add: demo_badger_def)
  have s: "status (demo_badger st) = st" "senderId (demo_badger st) = ''alice''" for st
    by (simp_all add: demo_badger_def)
  from terminal_status_kept [where d = "[''b1'' \<mapsto> demo_badger ''expired'']" and i = "''b1''"
      and user = "''alice''" and j = "''b1''" and s = "''received''" and now = 9, OF a e]
    terminal_status_kept [where d = "[''b1'' \<mapsto> demo_badger ''completed'']" and i = "''b1''"
      and user = "''alice''" and j = "''b1''" and s = "''received''" and now = 9, OF a c]
  show ?thesis using e by (simp add: s)
qed

section \<open>The expiration sweep\<close>

text \<open>
  Claim C6. One run of the expiration sweep sets to \<open>expired\<close> every delivery that is
  not completed, cancelled or expired and whose \<open>expiresAt\<close> is in the past, and
  leaves every other delivery as it is; afterwards no delivery outside these three
  statuses has an \<open>expiresAt\<close> in the past. A delivery in progress whose \<open>expiresAt\<close>
  has passed becomes expired, although the table of the transition request has no
  pair from \<open>in-progress\<close> to \<open>expired\<close>.
\<close>

theorem expiration_sweep:
  "(d i = Some b \<and> status b \<notin> set [''completed'', ''cancelled'', ''expired''] \<and>
    expiresAt b = Some t \<and> t < now \<longrightarrow>
      cleanupExpiredBadgers now d i = Some (b\<lparr>status := ''expired''\<rparr>)) \<and>
   (d i = Some b \<and>
    \<not> (status b \<notin> set [''completed'', ''cancelled'', ''expired''] \<and>
       (\<exists>t. expiresAt b = Some t \<and> t < now)) \<longrightarrow>
      cleanupExpiredBadgers now d i = Some b) \<and>
   (d i = None \<longrightarrow> cleanupExpiredBadgers now d i = None) \<and>
   (cleanupExpiredBadgers now d i = Some b' \<and>
    status b' \<notin> set [''completed'', ''cancelled'', ''expired''] \<longrightarrow>
      \<not> date_lt (expiresAt b') now) \<and>
   (d i = Some b \<and> status b = ''in-progress'' \<and> expiresAt b = Some t \<and> t < now \<longrightarrow>
      map_option status (cleanupExpiredBadgers now d i) = Some ''expired'') \<and>
   \<not> transition_allowed ''in-progress'' ''expired''"
proof -
  have dl: "date_lt x now \<longleftrightarrow> (\<exists>t. x = Some t \<and> t < now)" for x
    by (cases x) simp_all
  show ?thesis
    by (auto simp: cleanupExpiredBadgers_def updateMany_def dl transition_allowed_def
        allowedTransitions_def split: option.splits if_splits)
qed

theorem expiration_sweep_witness:
  "[''b1'' \<mapsto> (demo_badger ''in-progress'')\<lparr>expiresAt := Some 5\<rparr>] ''b1''
     = Some ((demo_badger ''in-progress'')\<lparr>expiresAt := Some 5\<rparr>) \<and>
   status ((demo_badger ''in-progress'')\<lparr>expiresAt := Some 5\<rparr>) = ''in-progress'' \<and>
   expiresAt ((demo_badger ''in-progress'')\<lparr>expiresAt := Some 5\<rparr>) = Some 5 \<and> (5::int) < 9 \<and>
   map_option status
     (cleanupExpiredBadgers 9 [''b1'' \<mapsto> (demo_badger ''in-progress'')\<lparr>expiresAt := Some 5\<rparr>]
        ''b1'') = Some ''expired''"
proof -
  let ?b = "(demo_badger ''in-progress'')\<lparr>expiresAt := Some 5\<rparr>"
  have s: "status ?b = ''in-progress''" "expiresAt ?b = Some 5"
    by (simp_all add: demo_badger_def)
  from expiration_sweep [of "[''b1'' \<mapsto> ?b]" "''b1''" ?b 5 9] s
  show ?thesis by simp
qed

section \<open>Chat pagination\<close>

lemma holds_int_d_int:
  assumes "\<bar>n\<bar> < 2 ^ 53"
  shows "holds_int (d_int n) n"
  using fl_int [OF _ assms] by (simp add: holds_int_def d_int_def)

lemma holds_int_mul:
  assumes "holds_int x a" and "holds_int y b" and "\<bar>a * b\<bar> < 2 ^ 53"
  shows "holds_int (d_mul x y) (a * b)"
proof (cases "a = 0 \<or> b = 0")
  case True
  with assms(1,2) show ?thesis
    by (auto simp: holds_int_def split: if_splits)
next
  case False
  then have n: "a * b \<noteq> 0" by simp
  from False assms(1,2) have "d_mul x y = fl (of_int (a * b))"
    by (simp add: holds_int_def)
  with fl_int [OF n assms(3)] n show ?thesis
    by (simp add: holds_int_def)
qed

lemma holds_int_add:
  assumes "holds_int x a" and "holds_int y b" and "\<bar>a + b\<bar> < 2 ^ 53"
  shows "holds_int (d_add x y) (a + b)"
proof (cases "a = 0 \<or> b = 0")
  case True
  with assms(1,2) show ?thesis
    by (auto simp: holds_int_def split: if_splits)
next
  case False
  show ?thesis
  proof (cases "a + b = 0")
    case True
    then have "(of_int a :: rat) + of_int b = 0"
      by (metis of_int_0 of_int_add)
    with True False assms(1,2) show ?thesis
      by (simp add: holds_int_def)
  next
    case n: False
    then have "(of_int a :: rat) + of_int b \<noteq> 0"
      by (metis of_int_0_eq_iff of_int_add)
    with False assms(1,2) have "d_add x y = fl (of_int (a + b))"
      by (simp add: holds_int_def)
    with fl_int [OF n assms(3)] n show ?thesis
      by (simp add: holds_int_def)
  qed
qed

lemma holds_int_sub_one:
  assumes "holds_int x a" and "\<bar>a - 1\<bar> < 2 ^ 53"
  shows "holds_int (d_sub x (DFin 1)) (a - 1)"
proof -
  have "holds_int (DFin (- 1)) (- 1)" by (simp add: holds_int_def)
  from holds_int_add [OF assms(1) this] assms(2) show ?thesis
    by (simp add: d_sub_def)
qed

lemma relative_index_int:
  assumes "holds_int x n"
  shows "relative_index len x =
           (if n < 0 then nat (max (int len + n) 0) else min (nat n) len)"
proof (cases "n = 0")
  case True
  with assms show ?thesis by (auto simp: holds_int_def)
next
  case False
  have "truncate_rat (of_int n) = n" by (simp add: truncate_rat_def)
  with False assms show ?thesis by (simp add: holds_int_def Let_def)
qed

lemma js_slice_take_drop:
  assumes "holds_int x a" and "holds_int y b" and "0 \<le> a" and "a \<le> b"
  shows "js_slice xs x y = take (nat b - nat a) (drop (nat a) xs)"
  using assms(3,4)
  by (auto simp: js_slice_def relative_index_int [OF assms(1)] relative_index_int [OF assms(2)]
      Let_def min_def)

lemma take_drop_index_range:
  assumes "0 \<le> a" and "a \<le> b"
  shows "take (nat b - nat a) (drop (nat a) xs) = index_range xs a b"
proof (rule nth_equalityI)
  show len: "length (take (nat b - nat a) (drop (nat a) xs)) = length (index_range xs a b)"
    using assms by (auto simp: index_range_def)
  fix n
  assume n: "n < length (take (nat b - nat a) (drop (nat a) xs))"
  then have b: "n < nat b - nat a" "nat a + n < length xs"
    using assms by auto
  then have "take (nat b - nat a) (drop (nat a) xs) ! n = xs ! (nat a + n)"
    using assms by simp
  moreover have "index_range xs a b ! n = xs ! nat (a + int n)"
  proof -
    have le: "a + int n \<le> min (int (length xs)) b - 1"
      using assms b by auto
    have m: "max 0 a = a" using assms by simp
    have "[a..min (int (length xs)) b - 1] ! n = a + int n"
      using le by (rule nth_upto)
    moreover have "n < length [a..min (int (length xs)) b - 1]"
      using le by (simp add: min_def split: if_splits)
    ultimately show ?thesis
      by (simp only: index_range_def m nth_map)
  qed
  moreover have "nat (a + int n) = nat a + n" using assms by simp
  ultimately show "take (nat b - nat a) (drop (nat a) xs) ! n = index_range xs a b ! n"
    by simp
qed

lemma js_slice_nothing:
  assumes "holds_int y 0"
  shows "js_slice xs x y = []"
  by (simp add: js_slice_def relative_index_int [OF assms])

lemma relative_index_zero_limit:
  "relative_index len (d_mul x (DZero False)) = 0"
  "relative_index len (d_add (d_mul x (DZero False)) (DZero False)) = 0"
  by (cases x; simp)+

lemma chatHistory_zero_limit: "chatHistory messages page (d_int 0) = []"
  by (simp add: chatHistory_def js_slice_def relative_index_zero_limit d_int_def)

text \<open>The bounds of the slice, for a page and a limit within the exact integers.\<close>

lemma chatHistory_bounds:
  assumes "0 \<le> page" and "0 < limit" and "limit < 2 ^ 53" and "page * limit < 2 ^ 53"
  shows "\<exists>x y. chatHistory messages (d_int page) (d_int limit) = rev (js_slice (rev messages) x y)
           \<and> holds_int x ((page - 1) * limit) \<and> holds_int y (page * limit)"
proof -
  have "page * 1 \<le> page * limit" using assms(1,2) by (intro mult_left_mono) simp_all
  with assms(4) have p: "page < 2 ^ 53" by simp
  have s: "\<bar>(page - 1) * limit\<bar> < 2 ^ 53"
  proof (cases "page = 0")
    case True
    with assms(2,3) show ?thesis by simp
  next
    case False
    with assms(1) have "0 \<le> (page - 1) * limit" using assms(2) by simp
    moreover have "(page - 1) * limit \<le> page * limit"
      using assms(2) by (intro mult_right_mono) simp_all
    ultimately show ?thesis using assms(4) by linarith
  qed
  have hp: "holds_int (d_int page) page" using assms(1) p by (intro holds_int_d_int) simp
  have hl: "holds_int (d_int limit) limit" using assms(2,3) by (intro holds_int_d_int) simp
  have h1: "holds_int (d_sub (d_int page) (DFin 1)) (page - 1)"
    using assms(1) p by (intro holds_int_sub_one [OF hp]) simp
  have hs: "holds_int (d_mul (d_sub (d_int page) (DFin 1)) (d_int limit)) ((page - 1) * limit)"
    by (rule holds_int_mul [OF h1 hl s])
  have e: "(page - 1) * limit + limit = page * limit" by (simp add: algebra_simps)
  have "\<bar>(page - 1) * limit + limit\<bar> < 2 ^ 53"
    using assms(1,2,4) by (simp only: e) simp
  from holds_int_add [OF hs hl this]
  have hu: "holds_int (d_add (d_mul (d_sub (d_int page) (DFin 1)) (d_int limit)) (d_int limit))
              (page * limit)"
    by (simp only: e)
  show ?thesis
    using hs hu by (auto simp: chatHistory_def Let_def)
qed

lemma chatHistory_spec:
  assumes "0 \<le> page" and "0 \<le> limit" and "limit < 2 ^ 53" and "page * limit < 2 ^ 53"
  shows "chatHistory messages (d_int page) (d_int limit) = spec_page messages page limit"
proof (cases "limit = 0")
  case True
  then show ?thesis
    by (simp add: chatHistory_zero_limit spec_page_def index_range_def)
next
  case False
  with assms(2) have l: "0 < limit" by simp
  from chatHistory_bounds [OF assms(1) l assms(3,4)] obtain x y where
    c: "chatHistory messages (d_int page) (d_int limit) = rev (js_slice (rev messages) x y)"
    and x: "holds_int x ((page - 1) * limit)" and y: "holds_int y (page * limit)"
    by blast
  have e: "(page - 1) * limit + limit = page * limit" by (simp add: algebra_simps)
  show ?thesis
  proof (cases "page = 0")
    case True
    with y have "holds_int y 0" by simp
    then have "js_slice (rev messages) x y = []" by (rule js_slice_nothing)
    with True l c show ?thesis
      by (simp add: spec_page_def index_range_def)
  next
    case False
    with assms(1) l have a: "0 \<le> (page - 1) * limit" by simp
    have b: "(page - 1) * limit \<le> page * limit"
      using l by (intro mult_right_mono) simp_all
    have "js_slice (rev messages) x y
            = index_range (rev messages) ((page - 1) * limit) (page * limit)"
      by (simp only: js_slice_take_drop [OF x y a b] take_drop_index_range [OF a b])
    with c show ?thesis
      by (simp add: spec_page_def Let_def e)
  qed
qed

lemma chatHistory_recent:
  assumes "0 \<le> limit" and "limit < 2 ^ 53"
  shows "chatHistory messages (d_int 1) (d_int limit) = drop (length messages - nat limit) messages"
proof (cases "limit = 0")
  case True
  then show ?thesis by (simp add: chatHistory_zero_limit)
next
  case False
  with assms have l: "0 < limit" by simp
  from chatHistory_bounds [of 1 limit messages] l assms(2) obtain x y where
    c: "chatHistory messages (d_int 1) (d_int limit) = rev (js_slice (rev messages) x y)"
    and x: "holds_int x 0" and y: "holds_int y limit"
    by auto
  have "js_slice (rev messages) x y = take (nat limit) (rev messages)"
    using js_slice_take_drop [OF x y] l by simp
  with c show ?thesis by (simp add: rev_take)
qed

lemma at_least_weaken:
  assumes "at_least a x" and "b \<le> a"
  shows "at_least b x"
  using assms by (cases x) simp_all

lemma at_least_d_int:
  assumes "2 ^ k \<le> n"
  shows "at_least (2 ^ k) (d_int n)"
proof -
  have "(0::int) < 2 ^ k" by simp
  with assms have n: "n \<noteq> 0" by linarith
  have "(2::rat) ^ k = of_int (2 ^ k)" by simp
  also have "\<dots> \<le> of_int n" using assms by (simp only: of_int_le_iff)
  finally have "(2::rat) ^ k \<le> of_int n" .
  from fl_at_least [OF this] n show ?thesis by (simp add: d_int_def)
qed

lemma at_least_mul:
  assumes "at_least a x" and "at_least b y" and "0 < a" and "0 < b" and "2 ^ k \<le> a * b"
  shows "at_least (2 ^ k) (d_mul x y)"
proof (cases x)
  case (DFin r)
  with assms(1) have r: "a \<le> r" by simp
  show ?thesis
  proof (cases y)
    case (DFin q)
    with assms(2) have q: "b \<le> q" by simp
    have "a * b \<le> r * q" using r q assms(3,4) by (intro mult_mono) simp_all
    with assms(5) have "2 ^ k \<le> r * q" by linarith
    from fl_at_least [OF this] show ?thesis by (simp add: \<open>x = DFin r\<close> DFin)
  next
    case (DInf s)
    with assms(2,3) r show ?thesis by (simp add: \<open>x = DFin r\<close>)
  qed (use assms(2) in simp_all)
next
  case (DInf s)
  show ?thesis
  proof (cases y)
    case (DFin q)
    with assms(1,2,4) DInf show ?thesis by simp
  next
    case (DInf t)
    with assms(1,2) \<open>x = DInf s\<close> show ?thesis by simp
  qed (use assms(2) in simp_all)
qed (use assms(1) in simp_all)

lemma at_least_sub_one:
  assumes "at_least (2 ^ Suc k) x"
  shows "at_least (2 ^ k) (d_sub x (DFin 1))"
proof (cases x)
  case (DFin r)
  with assms have r: "2 * 2 ^ k \<le> r" by simp
  have "(1::rat) \<le> 2 ^ k" by simp
  with r have b: "2 ^ k \<le> r + - 1" by linarith
  have "(0::rat) < 2 ^ k" by simp
  with b have "r + - 1 \<noteq> 0" by linarith
  with fl_at_least [OF b] show ?thesis
    by (simp only: DFin d_sub_def d_neg.simps d_add.simps if_False)
qed (use assms in \<open>simp_all add: d_sub_def\<close>)

lemma relative_index_at_least:
  assumes "at_least c x" and "of_nat len \<le> c"
  shows "relative_index len x = len"
proof (cases x)
  case (DFin r)
  with assms have r: "of_nat len \<le> r" by simp
  then have p: "0 \<le> r" by (rule order_trans [rotated]) simp
  then have t: "truncate_rat r = \<lfloor>r\<rfloor>" by (simp add: truncate_rat_def)
  have "int len \<le> \<lfloor>r\<rfloor>" using r by (simp add: le_floor_iff)
  then show ?thesis using p by (simp add: DFin t Let_def)
qed (use assms in simp_all)

lemma js_slice_beyond:
  assumes "relative_index (length xs) x = length xs"
  shows "js_slice xs x y = []"
  by (simp add: js_slice_def assms)

lemma index_range_beyond:
  assumes "int (length xs) \<le> a"
  shows "index_range xs a b = []"
  using assms by (simp add: index_range_def)

lemma index_range_all:
  assumes "int (length xs) \<le> b"
  shows "index_range xs 0 b = xs"
proof -
  have "0 \<le> b" using assms by linarith
  from take_drop_index_range [of 0 b xs] this assms show ?thesis by simp
qed

lemma skip_large:
  assumes "2 \<le> page" and "1 \<le> limit" and "\<not> (limit < 2 ^ 53 \<and> page * limit < 2 ^ 53)"
  shows "2 ^ 52 \<le> (page - 1) * (limit::int)"
proof (cases "limit < 2 ^ 53")
  case False
  have "1 * limit \<le> (page - 1) * limit"
    using assms(1,2) by (intro mult_right_mono) simp_all
  then have a: "limit \<le> (page - 1) * limit" by (simp only: mult_1)
  have "(2::int) ^ 52 \<le> 2 ^ 53" by simp
  with False a show ?thesis by linarith
next
  case True
  with assms(3) have b: "2 ^ 53 \<le> page * limit" by simp
  have "page * limit \<le> (2 * (page - 1)) * limit"
    using assms(1,2) by (intro mult_right_mono) simp_all
  then have a: "page * limit \<le> 2 * ((page - 1) * limit)" by (simp only: mult.assoc)
  have "(2::int) ^ 53 = 2 * 2 ^ 52" by simp
  with a b show ?thesis by linarith
qed

lemma skip_beyond:
  assumes "2 \<le> page" and "1 \<le> limit" and "\<not> (limit < 2 ^ 53 \<and> page * limit < 2 ^ 53)"
  shows "at_least (2 ^ 52) (d_mul (d_sub (d_int page) (DFin 1)) (d_int limit))"
proof (cases "page < 2 ^ 53")
  case p: True
  have hp: "holds_int (d_int page) page" using assms(1) p by (intro holds_int_d_int) simp
  have "holds_int (d_sub (d_int page) (DFin 1)) (page - 1)"
    using assms(1) p by (intro holds_int_sub_one [OF hp]) simp
  with assms(1) have p1: "d_sub (d_int page) (DFin 1) = DFin (of_int (page - 1))"
    by (simp add: holds_int_def)
  show ?thesis
  proof (cases "limit < 2 ^ 53")
    case True
    have "holds_int (d_int limit) limit" using assms(2) True by (intro holds_int_d_int) simp
    with assms(2) have l: "d_int limit = DFin (of_int limit)" by (simp add: holds_int_def)
    have "(2::rat) ^ 52 = of_int (2 ^ 52)" by simp
    also have "\<dots> \<le> of_int ((page - 1) * limit)"
      using skip_large [OF assms] by (simp only: of_int_le_iff)
    finally have "(2::rat) ^ 52 \<le> of_int (page - 1) * of_int limit" by simp
    from fl_at_least [OF this] show ?thesis by (simp only: p1 l d_mul.simps)
  next
    case False
    then have "2 ^ 53 \<le> limit" by simp
    then have l: "at_least (2 ^ 53) (d_int limit)" by (rule at_least_d_int)
    have "(1::rat) \<le> of_int (page - 1)" using assms(1) by simp
    then have a: "at_least 1 (d_sub (d_int page) (DFin 1))" by (simp only: p1 at_least.simps)
    show ?thesis by (rule at_least_mul [OF a l]) simp_all
  qed
next
  case False
  then have "2 ^ Suc 52 \<le> page" by simp
  then have "at_least (2 ^ Suc 52) (d_int page)" by (rule at_least_d_int)
  then have a: "at_least (2 ^ 52) (d_sub (d_int page) (DFin 1))" by (rule at_least_sub_one)
  have "2 ^ 0 \<le> limit" using assms(2) by simp
  then have l: "at_least (2 ^ 0) (d_int limit)" by (rule at_least_d_int)
  show ?thesis by (rule at_least_mul [OF a l]) simp_all
qed

text \<open>Beyond the exact integers of doubles, from page 2 on the page is empty.\<close>

lemma chatHistory_beyond:
  assumes "2 \<le> page" and "1 \<le> limit" and "\<not> (limit < 2 ^ 53 \<and> page * limit < 2 ^ 53)"
    and "length messages < 2 ^ 32"
  shows "chatHistory messages (d_int page) (d_int limit) = spec_page messages page limit"
proof -
  have "(2::nat) ^ 32 \<le> 2 ^ 52" by (rule power_increasing) simp_all
  with assms(4) have len: "length (rev messages) \<le> 2 ^ 52" by simp
  then have "(of_nat (length (rev messages)) :: rat) \<le> of_nat (2 ^ 52)"
    by (simp only: of_nat_le_iff)
  then have c: "(of_nat (length (rev messages)) :: rat) \<le> 2 ^ 52" by simp
  have "relative_index (length (rev messages))
          (d_mul (d_sub (d_int page) (DFin 1)) (d_int limit)) = length (rev messages)"
    by (rule relative_index_at_least [OF skip_beyond [OF assms(1-3)] c])
  then have code: "chatHistory messages (d_int page) (d_int limit) = []"
    by (simp only: chatHistory_def Let_def js_slice_beyond rev.simps)
  have "int (length (rev messages)) \<le> int (2 ^ 52)" using len by (simp only: of_nat_le_iff)
  also have "\<dots> = 2 ^ 52" by simp
  also have "\<dots> \<le> (page - 1) * limit" by (rule skip_large [OF assms(1-3)])
  finally have "spec_page messages page limit = []"
    by (simp only: spec_page_def Let_def index_range_beyond rev.simps)
  with code show ?thesis by simp
qed

lemma chatHistory_page_zero:
  assumes "0 \<le> limit"
  shows "chatHistory messages (d_int 0) (d_int limit) = []"
proof (cases "limit = 0")
  case True
  then show ?thesis by (simp add: chatHistory_zero_limit)
next
  case False
  with assms have pos: "0 < limit" by simp
  have p: "d_sub (d_int 0) (DFin 1) = DFin (- 1)" by (simp add: d_int_def d_sub_def)
  have l: "d_int limit = fl (of_int limit)" using False by (simp add: d_int_def)
  show ?thesis
  proof (cases "fl (of_int limit)")
    case (DFin r)
    from fl_negated [OF pos DFin] have "d_mul (DFin (- 1)) (DFin r) = DFin (- r)" by simp
    then show ?thesis
      by (simp add: chatHistory_def p l DFin js_slice_def)
  qed (simp_all add: chatHistory_def p l js_slice_def)
qed

text \<open>Page 1 with a limit beyond the exact integers that is still a double: the whole log.\<close>

lemma chatHistory_first_page:
  assumes "2 ^ 53 \<le> limit" and "d_int limit \<noteq> DInf False" and "length messages < 2 ^ 32"
  shows "chatHistory messages (d_int 1) (d_int limit) = spec_page messages 1 limit"
proof -
  have "(2::nat) ^ 32 \<le> 2 ^ 53" by (rule power_increasing) simp_all
  with assms(3) have len: "length (rev messages) \<le> 2 ^ 53" by simp
  from at_least_d_int [OF assms(1)] assms(2) obtain r where
    l: "d_int limit = DFin r" and r: "2 ^ 53 \<le> r"
    by (cases "d_int limit") auto
  have one: "d_int 1 = DFin 1" using fl_int [of 1] by (simp add: d_int_def)
  have rp: "\<not> r < 0" using r by (rule contrapos_pn) simp
  have skip: "d_mul (d_sub (DFin 1) (DFin 1)) (DFin r) = DZero False"
    using rp by (simp add: d_sub_def)
  have "(of_nat (length (rev messages)) :: rat) \<le> of_nat (2 ^ 53)"
    using len by (simp only: of_nat_le_iff)
  then have c: "(of_nat (length (rev messages)) :: rat) \<le> 2 ^ 53" by simp
  have "at_least (2 ^ 53) (DFin r)" using r by simp
  from relative_index_at_least [OF this c]
  have final: "relative_index (length (rev messages)) (DFin r) = length (rev messages)" .
  have k: "relative_index (length (rev messages)) (DZero False) = 0" by simp
  have "js_slice (rev messages) (DZero False) (DFin r) = rev messages"
    by (simp only: js_slice_def Let_def final k) simp
  then have code: "chatHistory messages (d_int 1) (d_int limit) = messages"
    using rp by (simp add: chatHistory_def one l skip)
  have "int (length (rev messages)) \<le> int (2 ^ 53)" using len by (simp only: of_nat_le_iff)
  also have "\<dots> = 2 ^ 53" by simp
  also have "\<dots> \<le> limit" by (rule assms(1))
  finally have "index_range (rev messages) 0 limit = rev messages" by (rule index_range_all)
  then have "spec_page messages 1 limit = messages" by (simp add: spec_page_def)
  with code show ?thesis by simp
qed

lemma spec_page_zero:
  assumes "0 \<le> limit"
  shows "spec_page messages 0 limit = []"
  using assms by (simp add: spec_page_def index_range_def)

lemma spec_page_recent:
  assumes "0 \<le> limit"
  shows "spec_page messages 1 limit = drop (length messages - nat limit) messages"
proof -
  from take_drop_index_range [of 0 limit "rev messages"] assms
  have "index_range (rev messages) 0 limit = take (nat limit) (rev messages)" by simp
  then show ?thesis by (simp add: spec_page_def rev_take)
qed

lemma chatHistory_page:
  assumes "0 \<le> page" and "0 \<le> limit" and "length messages < 2 ^ 32"
    and "page = 1 \<longrightarrow> d_int limit \<noteq> DInf False"
  shows "chatHistory messages (d_int page) (d_int limit) = spec_page messages page limit"
proof (cases "limit < 2 ^ 53 \<and> page * limit < 2 ^ 53")
  case True
  with assms(1,2) show ?thesis by (intro chatHistory_spec) simp_all
next
  case False
  then have l: "1 \<le> limit" using assms(2) by (cases "limit = 0") simp_all
  consider "page = 0" | "page = 1" | "2 \<le> page" using assms(1) by linarith
  then show ?thesis
  proof cases
    case 1
    then show ?thesis
      by (simp only: chatHistory_page_zero [OF assms(2)] spec_page_zero [OF assms(2)])
  next
    case 2
    with False have "2 ^ 53 \<le> limit" by simp
    from chatHistory_first_page [OF this _ assms(3)] assms(4) 2 show ?thesis by simp
  next
    case 3
    then show ?thesis by (rule chatHistory_beyond [OF _ l False assms(3)])
  qed
qed

text \<open>
  Claim C7, as the specification states it for every page and limit, fails in two
  ways. \<open>slice\<close> counts a negative bound from the end of the log: page -1 with limit 2
  of a log of five messages returns the third and fourth message, where no index lies
  in \<open>[-4, -2)\<close>. And \<open>parseInt\<close> returns a double: for page 1 and the limit \<open>2^1024\<close>,
  a numeral of 309 digits, it returns \<open>Infinity\<close>, \<open>skip\<close> is \<open>0 * Infinity = NaN\<close>, and
  the read returns no message, where the indices \<open>[0, 2^1024)\<close> hold the whole log.
\<close>

theorem chat_page_counterexample:
  "chatHistory demo_chat (d_int (- 1)) (d_int 2) = [demo_message 3, demo_message 4] \<and>
   spec_page demo_chat (- 1) 2 = [] \<and>
   chatHistory demo_chat (d_int 1) (d_int (2 ^ 1024)) = [] \<and>
   spec_page demo_chat 1 (2 ^ 1024) = demo_chat"
proof (intro conjI)
  have i: "d_int (- 1) = DFin (- 1)" "d_int 2 = DFin 2" "d_int 1 = DFin 1"
    using fl_int [of "- 1"] fl_int [of 2] fl_int [of 1] by (simp_all add: d_int_def)
  have f: "fl (- 2) = DFin (- 2)" "fl (- 4) = DFin (- 4)"
    using fl_int [of "- 2"] fl_int [of "- 4"] by simp_all
  have b: "d_int (2 ^ 1024) = DInf False"
    using fl_beyond [of "2 ^ 1024"] by (simp only: d_int_def) simp
  show "chatHistory demo_chat (d_int (- 1)) (d_int 2) = [demo_message 3, demo_message 4]"
    by (simp add: i f demo_chat_def chatHistory_def d_sub_def js_slice_def truncate_rat_def Let_def)
  show "spec_page demo_chat (- 1) 2 = []"
    by (simp add: spec_page_def index_range_def Let_def)
  show "chatHistory demo_chat (d_int 1) (d_int (2 ^ 1024)) = []"
    by (simp only: i b) (simp add: chatHistory_def d_sub_def js_slice_def)
  show "spec_page demo_chat 1 (2 ^ 1024) = demo_chat"
    by (simp add: spec_page_def index_range_def demo_chat_def Let_def upto.simps)
qed

text \<open>
  Claim C7, amended. For every chat log of fewer than \<open>2^32\<close> messages (the bound of
  every array), every page from 0 on and every limit from 0 on, unless the page is 1
  and the limit so large that \<open>parseInt\<close> returns \<open>Infinity\<close> for it, the chat read
  returns the slice of the reversed log at the indices \<open>[skip, skip + limit)\<close> with
  \<open>skip = (page - 1) * limit\<close>, reversed back. Page 1 is the last \<open>limit\<close> messages in
  chronological order; of five messages, page 1 with limit 2 is the fourth and the
  fifth.
\<close>

theorem chat_page:
  assumes "0 \<le> page" and "0 \<le> limit" and "length messages < 2 ^ 32"
    and "page = 1 \<longrightarrow> d_int limit \<noteq> DInf False"
  shows "chatHistory messages (d_int page) (d_int limit) = spec_page messages page limit \<and>
         (d_int limit \<noteq> DInf False \<longrightarrow>
            chatHistory messages (d_int 1) (d_int limit)
              = drop (length messages - nat limit) messages) \<and>
         chatHistory [m1, m2, m3, m4, m5] (d_int 1) (d_int 2) = [m4, m5]"
proof (intro conjI impI)
  show "chatHistory messages (d_int page) (d_int limit) = spec_page messages page limit"
    by (rule chatHistory_page [OF assms])
  show "chatHistory messages (d_int 1) (d_int limit) = drop (length messages - nat limit) messages"
    if "d_int limit \<noteq> DInf False"
    using chatHistory_page [of 1 limit messages] assms(2,3) that
    by (simp add: spec_page_recent)
  show "chatHistory [m1, m2, m3, m4, m5] (d_int 1) (d_int 2) = [m4, m5]"
    using chatHistory_recent [of 2 "[m1, m2, m3, m4, m5]"] by simp
qed

theorem chat_page_witness:
  "(0::int) \<le> 1 \<and> (0::int) \<le> 2 \<and> length demo_chat < 2 ^ 32 \<and> d_int 2 \<noteq> DInf False \<and>
   chatHistory demo_chat (d_int 1) (d_int 2) = spec_page demo_chat 1 2 \<and>
   chatHistory demo_chat (d_int 1) (d_int 2) = [demo_message 4, demo_message 5]"
proof -
  have two: "d_int 2 \<noteq> DInf False" using fl_int [of 2] by (simp add: d_int_def)
  have len: "length demo_chat < 2 ^ 32" by (simp add: demo_chat_def)
  from chat_page [of 1 2 demo_chat "demo_message 1" "demo_message 2" "demo_message 3"
      "demo_message 4" "demo_message 5"] two len
  have "chatHistory demo_chat (d_int 1) (d_int 2) = spec_page demo_chat 1 2"
    and "chatHistory demo_chat (d_int 1) (d_int 2) = drop (length demo_chat - nat 2) demo_chat"
    by auto
  then show ?thesis using two len by (simp add: demo_chat_def)
qed

section \<open>Engagement analytics\<close>

lemma two_days:
  assumes "86400000 < x" and "x \<le> (172800000::int)"
  shows "\<lceil>(of_int x :: rat) / (1000 * 60 * 60 * 24)\<rceil> = 2"
proof -
  have "(86400000::rat) < of_int x" using assms(1) by linarith
  moreover have "(of_int x :: rat) \<le> 172800000" using assms(2) by linarith
  ultimately show ?thesis by (simp add: ceiling_eq_iff field_simps)
qed

text \<open>
  Claim C8, as the specification states it, fails: four messages of users over two days
  are two messages per day, and the level for a rate from 1 up to 3 is \<open>medium\<close>.
\<close>

theorem engagement_counterexample:
  "length (filter (\<lambda>msg. msg_senderId msg \<noteq> ''badger'') demo_engagement_chat) = 4 \<and>
   172800000 - msg_timestamp (demo_message 0) = 2 * 86400000 \<and>
   demo_engagement_chat = demo_message 0 # map demo_message [1000, 2000, 3000] \<and>
   messagesPerDay 172800000 (demo_message 0) demo_engagement_chat = 2 \<and>
   calculateEngagementLevel 172800000 demo_engagement_chat = ''medium'' \<and>
   calculateEngagementLevel 172800000 demo_engagement_chat \<noteq> ''high''"
  by (simp add: demo_engagement_chat_def demo_message_def calculateEngagementLevel_def
      messagesPerDay_def totalDays_def ceiling_eq_iff)

text \<open>
  Claim C8, amended. For a chat with four non-companion messages whose first message
  is more than one and at most two days old, the analytics compute
  \<open>messagesPerDay = 2\<close> and the engagement level \<open>medium\<close>.
\<close>

theorem engagement_two_per_day:
  assumes "messages = first # rest"
    and "length (filter (\<lambda>msg. msg_senderId msg \<noteq> ''badger'') messages) = 4"
    and "86400000 < now - msg_timestamp first"
    and "now - msg_timestamp first \<le> 172800000"
  shows "totalDays now first = 2 \<and> messagesPerDay now first messages = 2 \<and>
         calculateEngagementLevel now messages = ''medium''"
proof -
  have t: "totalDays now first = 2"
    using two_days [OF assms(3,4)] by (simp add: totalDays_def)
  have m: "messagesPerDay now first messages = 2"
    using assms(2) t by (simp add: messagesPerDay_def)
  show ?thesis using t m assms(1) by (simp add: calculateEngagementLevel_def)
qed

theorem engagement_two_per_day_witness:
  "demo_engagement_chat = demo_message 0 # map demo_message [1000, 2000, 3000] \<and>
   length (filter (\<lambda>msg. msg_senderId msg \<noteq> ''badger'') demo_engagement_chat) = 4 \<and>
   86400000 < 172800000 - msg_timestamp (demo_message 0) \<and>
   172800000 - msg_timestamp (demo_message 0) \<le> 172800000 \<and>
   totalDays 172800000 (demo_message 0) = 2 \<and>
   messagesPerDay 172800000 (demo_message 0) demo_engagement_chat = 2 \<and>
   calculateEngagementLevel 172800000 demo_engagement_chat = ''medium''"
proof -
  have a: "demo_engagement_chat = demo_message 0 # map demo_message [1000, 2000, 3000]"
    by (simp add: demo_engagement_chat_def)
  have b: "length (filter (\<lambda>msg. msg_senderId msg \<noteq> ''badger'') demo_engagement_chat) = 4"
    by (simp add: demo_engagement_chat_def demo_message_def)
  have c: "86400000 < 172800000 - msg_timestamp (demo_message 0)"
    "172800000 - msg_timestamp (demo_message 0) \<le> 172800000"
    by (simp_all add: demo_message_def)
  from engagement_two_per_day [OF a b c] a b c show ?thesis by simp
qed

section \<open>Concurrent transitions\<close>

lemma patch_status_alone: "patch_status_concurrent (\<lambda>d. d) d user i s now = patch_status d user i s now"
  by (auto simp: patch_status_concurrent_def patch_status_def save_changes_def findOne_party_def
      Let_def split: option.splits)

lemma patch_status_changes_status: "status (patch_status_changes s now b) = s"
  by (simp add: patch_status_changes_def Let_def)

text \<open>
  Claim C9, as the specification states it, fails: when the deadline sweep expires a
  delivery between the read and the save of a cancel transition, the sweep's write
  succeeds, the request succeeds as well, and the stored status is \<open>cancelled\<close>.
\<close>

theorem race_counterexample:
  "map_option status (checkDeadlines 9 [''b1'' \<mapsto> demo_due] ''b1'') = Some ''expired'' \<and>
   fst (patch_status_concurrent (checkDeadlines 9) [''b1'' \<mapsto> demo_due] ''alice'' ''b1''
          ''cancelled'' 9) = Inr (demo_due\<lparr>status := ''cancelled''\<rparr>) \<and>
   map_option status
     (snd (patch_status_concurrent (checkDeadlines 9) [''b1'' \<mapsto> demo_due] ''alice'' ''b1''
             ''cancelled'' 9) ''b1'') = Some ''cancelled''"
  by (simp add: patch_status_concurrent_def save_changes_def checkDeadlines_def updateMany_def
      findOne_party_def transition_allowed_def allowedTransitions_def patch_status_changes_def
      demo_due_def demo_badger_def demo_task_def Let_def)

text \<open>
  Claim C9, amended. A status transition is not applied under a compare-and-set. A
  transition request that the table permits for the status it read succeeds whatever
  another writer (a force-expire of the scheduler, say) stored for the delivery in the
  meantime, and its status replaces the stored one; no conflict is reported.
\<close>

theorem transition_without_compare_and_set:
  assumes "findOne_party d i user = Some b" and "transition_allowed (status b) s"
    and "other d i = Some stored"
  shows "fst (patch_status_concurrent other d user i s now) = Inr (patch_status_changes s now b) \<and>
         map_option status (snd (patch_status_concurrent other d user i s now) i) = Some s"
  using assms
  by (simp add: patch_status_concurrent_def save_changes_def patch_status_changes_status)

theorem transition_without_compare_and_set_witness:
  "findOne_party [''b1'' \<mapsto> demo_due] ''b1'' ''alice'' = Some demo_due \<and>
   transition_allowed (status demo_due) ''cancelled'' \<and>
   checkDeadlines 9 [''b1'' \<mapsto> demo_due] ''b1'' = Some (demo_due\<lparr>status := ''expired''\<rparr>) \<and>
   fst (patch_status_concurrent (checkDeadlines 9) [''b1'' \<mapsto> demo_due] ''alice'' ''b1''
          ''cancelled'' 9) = Inr (patch_status_changes ''cancelled'' 9 demo_due) \<and>
   map_option status
     (snd (patch_status_concurrent (checkDeadlines 9) [''b1'' \<mapsto> demo_due] ''alice'' ''b1''
             ''cancelled'' 9) ''b1'') = Some ''cancelled''"
proof -
  have f: "findOne_party [''b1'' \<mapsto> demo_due] ''b1'' ''alice'' = Some demo_due"
    by (simp add: findOne_party_def demo_due_def demo_badger_def)
  have t: "transition_allowed (status demo_due) ''cancelled''"
    by (simp add: transition_allowed_def allowedTransitions_def demo_due_def demo_badger_def)
  have o: "checkDeadlines 9 [''b1'' \<mapsto> demo_due] ''b1'' = Some (demo_due\<lparr>status := ''expired''\<rparr>)"
    by (simp add: checkDeadlines_def updateMany_def demo_due_def demo_badger_def demo_task_def)
  from transition_without_compare_and_set [where other = "checkDeadlines 9", OF f t o, of 9]
    f t o
  show ?thesis by simp
qed

end
